theory Spec2Isabelle
  imports Complex_Main
begin

section \<open>Numbers\<close>

text \<open>
  The TypeScript sources compute on IEEE doubles. The embedding takes every finite number as a
  \<^typ>\<open>real\<close>: rounding, NaN and signed zero are outside the model. The one infinite value
  the sources build on purpose, \<open>Number.POSITIVE_INFINITY\<close>, is the constructor \<open>PosInf\<close>
  of \<open>num\<close> wherever a field can hold it.
\<close>

datatype num = Fin real | PosInf

fun num_less :: "num \<Rightarrow> num \<Rightarrow> bool" where
  "num_less (Fin a) (Fin b) = (a < b)"
| "num_less (Fin a) PosInf = True"
| "num_less PosInf _ = False"

fun num_le :: "num \<Rightarrow> num \<Rightarrow> bool" where
  "num_le (Fin a) (Fin b) = (a \<le> b)"
| "num_le (Fin a) PosInf = True"
| "num_le PosInf (Fin b) = False"
| "num_le PosInf PosInf = True"

fun num_add :: "num \<Rightarrow> num \<Rightarrow> num" where
  "num_add (Fin a) (Fin b) = Fin (a + b)"
| "num_add _ _ = PosInf"

text \<open>\<open>a % n\<close> of JavaScript on finite numbers with \<open>n \<noteq> 0\<close>: the remainder of the
  division truncated towards zero, so it has the sign of \<open>a\<close>.\<close>

definition js_trunc :: "real \<Rightarrow> int" where
  "js_trunc q = (if 0 \<le> q then \<lfloor>q\<rfloor> else \<lceil>q\<rceil>)"

definition js_rem :: "real \<Rightarrow> real \<Rightarrow> real" where
  "js_rem a n = a - n * of_int (js_trunc (a / n))"

text \<open>\<open>Math.hypot(x, y)\<close>.\<close>

definition hypot :: "real \<Rightarrow> real \<Rightarrow> real" where
  "hypot a b = sqrt (a\<^sup>2 + b\<^sup>2)"

text \<open>\<open>Math.round\<close>: the nearest integer, a half rounded towards \<open>+\<infinity>\<close>.\<close>

definition js_round :: "real \<Rightarrow> int" where
  "js_round d = \<lfloor>d + 1/2\<rfloor>"

section \<open>pdrMath: clamp, wrapHeading, headingDiff, lowPassHeading\<close>

definition clamp :: "real \<Rightarrow> real \<Rightarrow> real \<Rightarrow> real" where
  "clamp n lo hi = max lo (min hi n)"

definition wrapHeading :: "real \<Rightarrow> real" where
  "wrapHeading deg = (let h = js_rem deg 360 in if h < 0 then h + 360 else h)"

definition headingDiff :: "real \<Rightarrow> real \<Rightarrow> real" where
  "headingDiff a b = js_rem (a - b + 540) 360 - 180"

definition lowPassHeading :: "real \<Rightarrow> real \<Rightarrow> real \<Rightarrow> real" where
  "lowPassHeading prevDeg nextDeg alpha =
     wrapHeading (prevDeg + headingDiff nextDeg prevDeg * clamp alpha 0 1)"

section \<open>fusion/kalman2d\<close>

text \<open>\<open>Vec2 = { x, y }\<close>; the fields are \<open>vx\<close>, \<open>vy\<close> here, and \<open>x\<close>, \<open>y\<close> of
  \<open>Kalman2DState\<close> are \<open>kx\<close>, \<open>ky\<close>.\<close>

record Vec2 =
  vx :: real
  vy :: real

record Kalman2DState =
  kx :: real
  ky :: real
  p00 :: real
  p01 :: real
  p11 :: real

definition createKalman2D :: "Vec2 \<Rightarrow> real \<Rightarrow> Kalman2DState" where
  "createKalman2D start posSigmaMeters =
     (let v = max (1/10^6) (posSigmaMeters * posSigmaMeters)
      in \<lparr>kx = vx start, ky = vy start, p00 = v, p01 = 0, p11 = v\<rparr>)"

text \<open>The source mutates the state object; the model returns the new state.\<close>

definition predictKalman2D :: "Kalman2DState \<Rightarrow> Vec2 \<Rightarrow> real \<Rightarrow> Kalman2DState" where
  "predictKalman2D s delta processSigmaMeters =
     (let q = max (1/10^6) (processSigmaMeters * processSigmaMeters)
      in s\<lparr>kx := kx s + vx delta, ky := ky s + vy delta, p00 := p00 s + q, p11 := p11 s + q\<rparr>)"

text \<open>The local \<open>det\<close> of \<open>updateKalman2D\<close>: the determinant of \<open>S = P + R\<close>.\<close>

definition innovationDet :: "Kalman2DState \<Rightarrow> real \<Rightarrow> real" where
  "innovationDet s measSigmaMeters =
     (let r = max (1/10^6) (measSigmaMeters * measSigmaMeters);
          s00 = p00 s + r;
          s01 = p01 s;
          s11 = p11 s + r
      in s00 * s11 - s01 * s01)"

text \<open>The locals \<open>(k00, k01, k10, k11)\<close> of \<open>updateKalman2D\<close>: the gain \<open>K = P * inv(S)\<close>.\<close>

definition kalmanGain :: "Kalman2DState \<Rightarrow> real \<Rightarrow> real \<times> real \<times> real \<times> real" where
  "kalmanGain s measSigmaMeters =
     (let r = max (1/10^6) (measSigmaMeters * measSigmaMeters);
          s00 = p00 s + r;
          s01 = p01 s;
          s11 = p11 s + r;
          det = s00 * s11 - s01 * s01;
          inv00 = s11 / det;
          inv01 = - s01 / det;
          inv11 = s00 / det;
          k00 = p00 s * inv00 + p01 s * inv01;
          k01 = p00 s * inv01 + p01 s * inv11;
          k10 = p01 s * inv00 + p11 s * inv01;
          k11 = p01 s * inv01 + p11 s * inv11
      in (k00, k01, k10, k11))"

definition updateKalman2D :: "Kalman2DState \<Rightarrow> Vec2 \<Rightarrow> real \<Rightarrow> Kalman2DState" where
  "updateKalman2D s z measSigmaMeters =
     (if innovationDet s measSigmaMeters \<le> 1/10^12 then s
      else
        (case kalmanGain s measSigmaMeters of (k00, k01, k10, k11) \<Rightarrow>
           let y0 = vx z - kx s;
               y1 = vy z - ky s
           in \<lparr>kx = kx s + (k00 * y0 + k01 * y1),
               ky = ky s + (k10 * y0 + k11 * y1),
               p00 = (1 - k00) * p00 s - k01 * p01 s,
               p01 = (1 - k00) * p01 s - k01 * p11 s,
               p11 = - k10 * p01 s + (1 - k11) * p11 s\<rparr>))"

text \<open>
  The state keeps one off-diagonal entry, \<open>p01\<close>, the upper right entry of \<open>(I - K) P\<close>.
  \<open>updatedP10\<close> is the lower left entry of the same product, which the source does not
  compute: the covariance after the update is symmetric when the two agree.
\<close>

definition updatedP10 :: "Kalman2DState \<Rightarrow> real \<Rightarrow> real" where
  "updatedP10 s measSigmaMeters =
     (if innovationDet s measSigmaMeters \<le> 1/10^12 then p01 s
      else
        (case kalmanGain s measSigmaMeters of (k00, k01, k10, k11) \<Rightarrow>
           - k10 * p00 s + (1 - k11) * p01 s))"

text \<open>Positive semidefinite covariance \<open>[[p00, p01], [p01, p11]]\<close>.\<close>

definition psd :: "Kalman2DState \<Rightarrow> bool" where
  "psd s \<longleftrightarrow> 0 \<le> p00 s \<and> 0 \<le> p11 s \<and> p01 s * p01 s \<le> p00 s * p11 s"

text \<open>The states a session can reach: created, then predicted and updated any number of times.\<close>

inductive kalmanReachable :: "Kalman2DState \<Rightarrow> bool" where
  created: "kalmanReachable (createKalman2D start posSigmaMeters)"
| predicted: "kalmanReachable s \<Longrightarrow> kalmanReachable (predictKalman2D s delta processSigmaMeters)"
| updated: "kalmanReachable s \<Longrightarrow> kalmanReachable (updateKalman2D s z measSigmaMeters)"

section \<open>mapmatching/geometry\<close>

text \<open>\<open>Point2 = { x, y }\<close>, with the fields named \<open>ptx\<close>, \<open>pty\<close>.\<close>

record Point2 =
  ptx :: real
  pty :: real

definition dist2 :: "Point2 \<Rightarrow> Point2 \<Rightarrow> real" where
  "dist2 a b = hypot (ptx a - ptx b) (pty a - pty b)"

text \<open>The value \<open>{ t, point, distance }\<close> of \<open>projectPointToSegment\<close>.\<close>

record Projection =
  proj_t :: real
  proj_point :: Point2
  proj_distance :: real

definition projectPointToSegment :: "Point2 \<Rightarrow> Point2 \<Rightarrow> Point2 \<Rightarrow> Projection" where
  "projectPointToSegment p a b =
     (let abx = ptx b - ptx a;
          aby = pty b - pty a;
          apx = ptx p - ptx a;
          apy = pty p - pty a;
          denom = abx * abx + aby * aby;
          t = (if denom \<le> 1/10^9 then 0 else clamp ((apx * abx + apy * aby) / denom) 0 1);
          q = \<lparr>ptx = ptx a + abx * t, pty = pty a + aby * t\<rparr>;
          d = hypot (ptx p - ptx q) (pty p - pty q)
      in \<lparr>proj_t = t, proj_point = q, proj_distance = d\<rparr>)"

section \<open>navigation/storeMap\<close>

datatype StoreMapNodeType = Entry | Exit | Aisle | Poi | Walkway

record StoreMapNode =
  node_id :: string
  node_label :: string
  node_x :: real
  node_y :: real
  node_floor :: real
  node_type :: StoreMapNodeType
  sectionId :: "string option"

text \<open>\<open>from\<close> and \<open>to\<close> are \<open>edge_from\<close> and \<open>edge_to\<close>; an optional field is an option.\<close>

record StoreMapEdge =
  edge_from :: string
  edge_to :: string
  edge_distance :: "real option"
  bidirectional :: "bool option"

datatype AnchorSource = Mock | Live

record StoreMapAnchor =
  anchor_bssid :: string
  anchor_label :: string
  anchor_x :: real
  anchor_y :: real
  anchor_floor :: real
  anchor_source :: AnchorSource
  anchor_confidence :: "real option"

record StoreMap =
  map_id :: string
  map_label :: string
  gridSize :: real
  nodes :: "StoreMapNode list"
  edges :: "StoreMapEdge list option"
  anchors :: "StoreMapAnchor list option"

section \<open>mapmatching/snapToGraph\<close>

text \<open>The value \<open>{ from, to }\<close> that names an edge.\<close>

record EdgeRef =
  ref_from :: string
  ref_to :: string

record SnapResult =
  snapped :: Point2
  distance :: num
  edge :: "EdgeRef option"
  snap_t :: real

text \<open>\<open>new Map(map.nodes.map((n) => [n.id, n]))\<close>: of two nodes with one id the later one
  stays.\<close>

definition nodeById :: "StoreMap \<Rightarrow> string \<Rightarrow> StoreMapNode option" where
  "nodeById m = map_of (rev (map (\<lambda>n. (node_id n, n)) (nodes m)))"

definition isUsableEdge :: "StoreMapEdge \<Rightarrow> bool" where
  "isUsableEdge e \<longleftrightarrow>
     (case edge_distance e of None \<Rightarrow> 0 | Some d \<Rightarrow> d) > 1/10^6 \<or> bidirectional e \<noteq> Some False"

text \<open>The options of \<open>snapToGraph\<close>; a missing \<open>opts\<close> is the record of four \<open>None\<close>.\<close>

record SnapOpts =
  maxSnapMeters :: "real option"
  previousEdge :: "EdgeRef option"
  switchPenaltyMeters :: "real option"
  hardClamp :: "bool option"

text \<open>The locals \<open>isPrev\<close>, \<open>isConnectedToPrev\<close> and \<open>penalty\<close> of \<open>bestOnEdges\<close>.\<close>

definition isPrev :: "EdgeRef option \<Rightarrow> EdgeRef \<Rightarrow> bool" where
  "isPrev prev edgeId \<longleftrightarrow>
     (case prev of None \<Rightarrow> False
      | Some pe \<Rightarrow> (ref_from pe = ref_from edgeId \<and> ref_to pe = ref_to edgeId)
                 \<or> (ref_from pe = ref_to edgeId \<and> ref_to pe = ref_from edgeId))"

definition isConnectedToPrev :: "EdgeRef option \<Rightarrow> EdgeRef \<Rightarrow> bool" where
  "isConnectedToPrev prev edgeId \<longleftrightarrow>
     (case prev of None \<Rightarrow> False
      | Some pe \<Rightarrow> ref_from pe = ref_from edgeId \<or> ref_from pe = ref_to edgeId
                 \<or> ref_to pe = ref_from edgeId \<or> ref_to pe = ref_to edgeId)"

definition penalty :: "EdgeRef option \<Rightarrow> real \<Rightarrow> EdgeRef \<Rightarrow> real" where
  "penalty prev switchPenalty edgeId =
     (if isPrev prev edgeId then 0
      else if isConnectedToPrev prev edgeId then 8/100 else switchPenalty)"

text \<open>The loop of \<open>bestOnEdges\<close>; the state is \<open>(best, bestScore)\<close>.\<close>

fun bestOnEdgesLoop ::
  "(string \<Rightarrow> StoreMapNode option) \<Rightarrow> Point2 \<Rightarrow> EdgeRef option \<Rightarrow> real \<Rightarrow>
   StoreMapEdge list \<Rightarrow> SnapResult option \<times> num \<Rightarrow> SnapResult option \<times> num" where
  "bestOnEdgesLoop nodeOf point prev switchPenalty [] st = st"
| "bestOnEdgesLoop nodeOf point prev switchPenalty (e # es) (best, bestScore) =
     (case nodeOf (edge_from e) of
        None \<Rightarrow> bestOnEdgesLoop nodeOf point prev switchPenalty es (best, bestScore)
      | Some a \<Rightarrow>
          (case nodeOf (edge_to e) of
             None \<Rightarrow> bestOnEdgesLoop nodeOf point prev switchPenalty es (best, bestScore)
           | Some b \<Rightarrow>
               let segA = \<lparr>ptx = node_x a, pty = node_y a\<rparr>;
                   segB = \<lparr>ptx = node_x b, pty = node_y b\<rparr>;
                   proj = projectPointToSegment point segA segB;
                   edgeId = \<lparr>ref_from = edge_from e, ref_to = edge_to e\<rparr>;
                   score = proj_distance proj + penalty prev switchPenalty edgeId
               in if best = None \<or> num_less (Fin score) bestScore
                  then bestOnEdgesLoop nodeOf point prev switchPenalty es
                         (Some \<lparr>snapped = proj_point proj, distance = Fin (proj_distance proj),
                                edge = Some edgeId, snap_t = proj_t proj\<rparr>, Fin score)
                  else bestOnEdgesLoop nodeOf point prev switchPenalty es (best, bestScore)))"

definition bestOnEdges ::
  "(string \<Rightarrow> StoreMapNode option) \<Rightarrow> Point2 \<Rightarrow> EdgeRef option \<Rightarrow> real \<Rightarrow>
   StoreMapEdge list \<Rightarrow> SnapResult option" where
  "bestOnEdges nodeOf point prev switchPenalty candidateEdges =
     fst (bestOnEdgesLoop nodeOf point prev switchPenalty candidateEdges (None, PosInf))"

text \<open>\<open>(map.edges ?? []).filter(isUsableEdge)\<close>.\<close>

definition usableEdges :: "StoreMap \<Rightarrow> StoreMapEdge list" where
  "usableEdges m = filter isUsableEdge (case edges m of None \<Rightarrow> [] | Some es \<Rightarrow> es)"

text \<open>The edges with an end in \<open>allowedNodes = {prev.from, prev.to}\<close>.\<close>

definition connectedEdges :: "EdgeRef \<Rightarrow> StoreMapEdge list \<Rightarrow> StoreMapEdge list" where
  "connectedEdges pe es =
     filter (\<lambda>e. edge_from e \<in> {ref_from pe, ref_to pe} \<or> edge_to e \<in> {ref_from pe, ref_to pe}) es"

definition snapToGraph :: "StoreMap \<Rightarrow> Point2 \<Rightarrow> SnapOpts \<Rightarrow> SnapResult" where
  "snapToGraph m point opts =
     (let maxSnap = (case maxSnapMeters opts of None \<Rightarrow> 175/100 | Some v \<Rightarrow> v);
          prev = previousEdge opts;
          switchPenalty = (case switchPenaltyMeters opts of None \<Rightarrow> 35/100 | Some v \<Rightarrow> v);
          hard = (case hardClamp opts of None \<Rightarrow> False | Some v \<Rightarrow> v);
          nodeOf = nodeById m;
          es = usableEdges m;
          best =
            (case prev of
               Some pe \<Rightarrow>
                 if hard then
                   (let connected = connectedEdges pe es;
                        bestConnected = bestOnEdges nodeOf point prev switchPenalty connected;
                        bestGlobal = bestOnEdges nodeOf point prev switchPenalty es
                    in case bestConnected of
                         Some c \<Rightarrow>
                           (case bestGlobal of
                              Some g \<Rightarrow>
                                let relocalize =
                                      (num_less (Fin (maxSnap * (225/100))) (distance c)
                                       \<and> num_less (num_add (distance g) (Fin (2/10))) (distance c))
                                in if relocalize then Some g else Some c
                            | None \<Rightarrow> Some c)
                       | None \<Rightarrow> bestGlobal)
                 else bestOnEdges nodeOf point prev switchPenalty es
             | None \<Rightarrow> bestOnEdges nodeOf point prev switchPenalty es)
      in case best of
           None \<Rightarrow> \<lparr>snapped = point, distance = PosInf, edge = None, snap_t = 0\<rparr>
         | Some b \<Rightarrow>
             if \<not> hard \<and> num_less (Fin maxSnap) (distance b)
             then \<lparr>snapped = point, distance = distance b, edge = edge b, snap_t = snap_t b\<rparr>
             else b)"

text \<open>\<open>nearestNodeId\<close>; the loop state is \<open>(bestId, best)\<close>.\<close>

fun nearestNodeLoop ::
  "Point2 \<Rightarrow> StoreMapNodeType list option \<Rightarrow> StoreMapNode list \<Rightarrow> string option \<times> num
   \<Rightarrow> string option \<times> num" where
  "nearestNodeLoop point types [] st = st"
| "nearestNodeLoop point types (n # ns) (bestId, best) =
     (if (case types of None \<Rightarrow> False | Some ts \<Rightarrow> node_type n \<notin> set ts)
      then nearestNodeLoop point types ns (bestId, best)
      else
        let d = dist2 point \<lparr>ptx = node_x n, pty = node_y n\<rparr>
        in if num_less (Fin d) best
           then nearestNodeLoop point types ns (Some (node_id n), Fin d)
           else nearestNodeLoop point types ns (bestId, best))"

definition nearestNodeId :: "StoreMap \<Rightarrow> Point2 \<Rightarrow> StoreMapNodeType list option \<Rightarrow> string option" where
  "nearestNodeId m point types = fst (nearestNodeLoop point types (nodes m) (None, PosInf))"

text \<open>
  What one pass of the loop of \<open>bestOnEdges\<close> computes for the edge \<open>e\<close> when both of its
  ends are nodes of the map: the projection and the candidate result.
\<close>

definition edgeProj :: "(string \<Rightarrow> StoreMapNode option) \<Rightarrow> Point2 \<Rightarrow> StoreMapEdge \<Rightarrow> Projection option" where
  "edgeProj nodeOf point e =
     (case nodeOf (edge_from e) of
        None \<Rightarrow> None
      | Some a \<Rightarrow>
          (case nodeOf (edge_to e) of
             None \<Rightarrow> None
           | Some b \<Rightarrow>
               Some (projectPointToSegment point \<lparr>ptx = node_x a, pty = node_y a\<rparr>
                       \<lparr>ptx = node_x b, pty = node_y b\<rparr>)))"

definition edgeRef :: "StoreMapEdge \<Rightarrow> EdgeRef" where
  "edgeRef e = \<lparr>ref_from = edge_from e, ref_to = edge_to e\<rparr>"

definition edgeSnap :: "StoreMapEdge \<Rightarrow> Projection \<Rightarrow> SnapResult" where
  "edgeSnap e proj =
     \<lparr>snapped = proj_point proj, distance = Fin (proj_distance proj),
      edge = Some (edgeRef e), snap_t = proj_t proj\<rparr>"

definition edgeScore :: "EdgeRef option \<Rightarrow> real \<Rightarrow> StoreMapEdge \<Rightarrow> Projection \<Rightarrow> real" where
  "edgeScore prev switchPenalty e proj = proj_distance proj + penalty prev switchPenalty (edgeRef e)"

text \<open>The graph of scenarios S4 and S5: two parallel corridors 0.4 m apart.\<close>

definition mkNode :: "string \<Rightarrow> real \<Rightarrow> real \<Rightarrow> StoreMapNode" where
  "mkNode i x y = \<lparr>node_id = i, node_label = i, node_x = x, node_y = y, node_floor = 0,
     node_type = Walkway, sectionId = None\<rparr>"

definition mkEdge :: "string \<Rightarrow> string \<Rightarrow> StoreMapEdge" where
  "mkEdge a b = \<lparr>edge_from = a, edge_to = b, edge_distance = None, bidirectional = None\<rparr>"

definition corridors :: StoreMap where
  "corridors = \<lparr>map_id = ''s4'', map_label = ''S4'', gridSize = 1,
     nodes = [mkNode ''a1'' 0 0, mkNode ''b1'' 10 0, mkNode ''a2'' 0 (2/5), mkNode ''b2'' 10 (2/5)],
     edges = Some [mkEdge ''a1'' ''b1'', mkEdge ''a2'' ''b2''], anchors = None\<rparr>"

text \<open>A map whose only edge is one-way and has no distance, and a map with an edge 0.03 mm
  long.\<close>

definition oneWayMap :: StoreMap where
  "oneWayMap = \<lparr>map_id = ''oneway'', map_label = ''one way'', gridSize = 1,
     nodes = [mkNode ''a1'' 0 0, mkNode ''b1'' 10 0],
     edges = Some [\<lparr>edge_from = ''a1'', edge_to = ''b1'', edge_distance = None,
                    bidirectional = Some False\<rparr>],
     anchors = None\<rparr>"

definition shortEdgeMap :: StoreMap where
  "shortEdgeMap = \<lparr>map_id = ''short'', map_label = ''short edge'', gridSize = 1,
     nodes = [mkNode ''a1'' 0 0, mkNode ''b1'' (3/10^5) 0],
     edges = Some [mkEdge ''a1'' ''b1''], anchors = None\<rparr>"

definition noOpts :: SnapOpts where
  "noOpts = \<lparr>maxSnapMeters = None, previousEdge = None, switchPenaltyMeters = None,
     hardClamp = None\<rparr>"

section \<open>nav/turnByTurn\<close>

datatype ManeuverType = MStart | MArrive | MLeft | MRight | MStraight | MUturn

record Maneuver =
  mtype :: ManeuverType
  atIndex :: nat
  mpoint :: Point2
  distanceFromStartMeters :: real
  instruction :: string

text \<open>\<open>Math.atan2(y, x)\<close> on reals, with \<open>atan2(0, 0) = 0\<close>.\<close>

definition js_atan2 :: "real \<Rightarrow> real \<Rightarrow> real" where
  "js_atan2 y x =
     (if 0 < x then arctan (y / x)
      else if x < 0 then (if 0 \<le> y then arctan (y / x) + pi else arctan (y / x) - pi)
      else if 0 < y then pi / 2
      else if y < 0 then - (pi / 2)
      else 0)"

text \<open>
  \<open>bearingDeg\<close> calls \<open>Math.atan2(dx, -dy)\<close>. For two equal points \<open>dx\<close> and \<open>dy\<close> are
  \<open>+0\<close>, so the second argument is \<open>-0\<close> and the result is \<open>\<pi>\<close>, not \<open>0\<close>: the one
  place where the sign of a zero shows, written out here.
\<close>

definition bearingDeg :: "Point2 \<Rightarrow> Point2 \<Rightarrow> real" where
  "bearingDeg a b =
     (let dx = ptx b - ptx a;
          dy = pty b - pty a;
          rad = (if dx = 0 \<and> dy = 0 then pi else js_atan2 dx (- dy));
          deg = (rad * 180) / pi;
          h = js_rem deg 360
      in if h < 0 then h + 360 else h)"

definition angleDiff :: "real \<Rightarrow> real \<Rightarrow> real" where
  "angleDiff a b = js_rem (a - b + 540) 360 - 180"

definition classifyTurn :: "real \<Rightarrow> ManeuverType" where
  "classifyTurn delta =
     (let abs = \<bar>delta\<bar>
      in if abs < 28 then MStraight
         else if abs > 150 then MUturn
         else if delta > 0 then MRight else MLeft)"

text \<open>The local \<open>delta\<close> of the loop of \<open>buildManeuvers\<close> at the interior index \<open>i\<close>.\<close>

definition turnDelta :: "Point2 list \<Rightarrow> nat \<Rightarrow> real" where
  "turnDelta polyline i =
     (let prev = polyline ! (i - 1);
          cur = polyline ! i;
          next = polyline ! (i + 1);
          b1 = bearingDeg prev cur;
          b2 = bearingDeg cur next
      in angleDiff b2 b1)"

text \<open>One pass of the \<open>for\<close> loop: the state is \<open>(cumulative, maneuvers)\<close>.\<close>

definition maneuverStep :: "Point2 list \<Rightarrow> nat \<Rightarrow> real \<times> Maneuver list \<Rightarrow> real \<times> Maneuver list" where
  "maneuverStep polyline i st =
     (case st of (cumulative, maneuvers) \<Rightarrow>
        let prev = polyline ! (i - 1);
            cur = polyline ! i;
            cumulative' = cumulative + dist2 prev cur;
            delta = turnDelta polyline i;
            turn = classifyTurn delta
        in if turn = MStraight then (cumulative', maneuvers)
           else
             let label = (if turn = MLeft then ''Turn left''
                          else if turn = MRight then ''Turn right'' else ''Make a U-turn'')
             in (cumulative', maneuvers @
                   [\<lparr>mtype = turn, atIndex = i, mpoint = cur,
                     distanceFromStartMeters = cumulative', instruction = label\<rparr>]))"

text \<open>\<open>polyline.reduce((acc, p, idx) => idx === 0 ? 0 : acc + dist(polyline[idx - 1], p), 0)\<close>.\<close>

definition polylineTotal :: "Point2 list \<Rightarrow> real" where
  "polylineTotal polyline =
     fold (\<lambda>idx acc. if idx = 0 then 0 else acc + dist2 (polyline ! (idx - 1)) (polyline ! idx))
       [0 ..< length polyline] 0"

definition buildManeuvers :: "Point2 list \<Rightarrow> Maneuver list" where
  "buildManeuvers polyline =
     (if length polyline < 2 then []
      else
        let start = \<lparr>mtype = MStart, atIndex = 0, mpoint = polyline ! 0,
                     distanceFromStartMeters = 0, instruction = ''Start''\<rparr>;
            looped = fold (maneuverStep polyline) [1 ..< length polyline - 1] (0, [start]);
            total = polylineTotal polyline
        in snd looped @
             [\<lparr>mtype = MArrive, atIndex = length polyline - 1,
               mpoint = polyline ! (length polyline - 1),
               distanceFromStartMeters = total, instruction = ''Arrive''\<rparr>])"

text \<open>
  Strings are ASCII here. \<open>toLowerCase\<close> maps \<open>A\<close> to \<open>Z\<close> to lower case and leaves the
  other characters; the instructions that \<open>buildManeuvers\<close> writes are ASCII.
\<close>

definition lowerChar :: "char \<Rightarrow> char" where
  "lowerChar c = (let n = (of_char c :: nat) in if 65 \<le> n \<and> n \<le> 90 then char_of (n + 32) else c)"

definition toLowerCase :: "string \<Rightarrow> string" where
  "toLowerCase s = map lowerChar s"

text \<open>
  The text of a whole number \<open>n\<close> with \<open>0 \<le> n \<le> 2^53\<close> in a template literal: its decimal
  digits. Every whole number of that range is a double and JavaScript prints it digit by
  digit. Above \<open>2^53\<close> JavaScript prints the shortest digits that read back as the same
  double, padded with zeros (\<open>2^63\<close> is printed 9223372036854776000), and from \<open>10^21\<close> on
  an exponent; \<open>numberToString\<close> is the text of the code up to \<open>2^53\<close> only, and the
  properties below stay in that range.
\<close>

definition digitChar :: "nat \<Rightarrow> char" where
  "digitChar d = char_of (48 + d)"

function numberToString :: "nat \<Rightarrow> string" where
  "numberToString n = (if n < 10 then [digitChar n] else numberToString (n div 10) @ [digitChar (n mod 10)])"
  by pat_completeness auto
termination
  by (relation "measure id") auto

declare numberToString.simps [simp del]

text \<open>The number that a string of decimal digits denotes.\<close>

definition decimalValue :: "string \<Rightarrow> nat" where
  "decimalValue s = foldl (\<lambda>a c. 10 * a + (of_char c - 48)) 0 s"

text \<open>
  \<open>formatNextInstruction\<close>. The last branch prints \<open>Math.max(0, Math.round(d))\<close> with
  \<open>numberToString\<close>, which is the text of the code while that number is at most \<open>2^53\<close>.
\<close>

definition formatNextInstruction :: "Maneuver option \<Rightarrow> real option \<Rightarrow> string" where
  "formatNextInstruction maneuver distanceMeters =
     (case maneuver of
        None \<Rightarrow> ''Select a destination''
      | Some mv \<Rightarrow>
          if mtype mv = MStart then ''Start walking''
          else if mtype mv = MArrive then
            (case distanceMeters of
               None \<Rightarrow> ''Continue to destination''
             | Some d \<Rightarrow> if d < 2 then ''Arrive'' else ''Continue to destination'')
          else
            (case distanceMeters of
               None \<Rightarrow> instruction mv
             | Some d \<Rightarrow>
                 let m = max 0 (js_round d)
                 in ''In '' @ numberToString (nat m) @ ''m, '' @ toLowerCase (instruction mv)))"

section \<open>positioning/wifiFix\<close>

record WifiReading =
  bssid :: string
  level :: real

text \<open>\<open>matched\<close> and \<open>best\<close> of \<open>WifiFix\<close> are \<open>fix_matched\<close> and \<open>fix_best\<close>.\<close>

record WifiFix =
  fix_x :: real
  fix_y :: real
  fix_matched :: nat
  fix_best :: "WifiReading option"

text \<open>\<open>trim\<close> on ASCII strings: tab, line feed, vertical tab, form feed, carriage return and
  space are removed at both ends.\<close>

definition isSpace :: "char \<Rightarrow> bool" where
  "isSpace c \<longleftrightarrow> (of_char c :: nat) \<in> {9, 10, 11, 12, 13, 32}"

definition trim :: "string \<Rightarrow> string" where
  "trim s = rev (dropWhile isSpace (rev (dropWhile isSpace s)))"

definition normalizeBssid :: "string \<Rightarrow> string" where
  "normalizeBssid b = toLowerCase (trim b)"

text \<open>The map \<open>byBssid\<close>: \<open>set\<close> overwrites, so the last anchor of a BSSID stays.\<close>

definition byBssid :: "StoreMapAnchor list \<Rightarrow> string \<Rightarrow> StoreMapAnchor option" where
  "byBssid ancs = map_of (rev (map (\<lambda>a. (normalizeBssid (anchor_bssid a), a)) ancs))"

text \<open>The list \<open>matched\<close>: \<open>r?.bssid\<close> is false on the empty string.\<close>

definition matchedReadings :: "WifiReading list \<Rightarrow> StoreMapAnchor list \<Rightarrow> WifiReading list" where
  "matchedReadings readings ancs =
     filter (\<lambda>r. byBssid ancs (bssid r) \<noteq> None)
       (map (\<lambda>r. r\<lparr>bssid := normalizeBssid (bssid r)\<rparr>)
          (filter (\<lambda>r. bssid r \<noteq> []) readings))"

text \<open>The weight \<open>w\<close> of a reading in the centroid loop.\<close>

definition wifiWeight :: "real \<Rightarrow> real" where
  "wifiWeight lvl = clamp (exp ((clamp lvl (-95) (-35) + 100) / 10)) 1 400"

text \<open>One pass of the centroid loop; the state is \<open>(sumW, x, y)\<close>.\<close>

definition centroidStep ::
  "(string \<Rightarrow> StoreMapAnchor option) \<Rightarrow> WifiReading \<Rightarrow> real \<times> real \<times> real \<Rightarrow> real \<times> real \<times> real" where
  "centroidStep byB r st =
     (case st of (sumW, x, y) \<Rightarrow>
        (case byB (bssid r) of
           None \<Rightarrow> (sumW, x, y)
         | Some a \<Rightarrow>
             let w = wifiWeight (level r)
             in (sumW + w, x + anchor_x a * w, y + anchor_y a * w)))"

definition computeWifiFix :: "WifiReading list \<Rightarrow> StoreMapAnchor list \<Rightarrow> WifiFix option" where
  "computeWifiFix readings ancs =
     (let byB = byBssid ancs;
          ms = matchedReadings readings ancs
      in if ms = [] then None
         else
           let bst = foldl (\<lambda>acc r. if level r > level acc then r else acc) (hd ms) ms
           in (case fold (centroidStep byB) ms (0, 0, 0) of (sumW, x, y) \<Rightarrow>
                 if sumW \<le> 0 then None
                 else Some \<lparr>fix_x = x / sumW, fix_y = y / sumW, fix_matched = length ms, fix_best = Some bst\<rparr>))"

definition wifiConfidenceFromFix :: "WifiFix option \<Rightarrow> real" where
  "wifiConfidenceFromFix fix =
     (case fix of
        None \<Rightarrow> 0
      | Some f \<Rightarrow>
          let bestLevel = (case fix_best f of None \<Rightarrow> - 90 | Some r \<Rightarrow> level r);
              base = clamp ((bestLevel + 100) / 55) (15/100) (95/100);
              multiBoost = clamp (8/100 * (real (fix_matched f) - 1)) 0 (2/10)
          in clamp (base + multiBoost) (15/100) (98/100))"

text \<open>The anchors and the scan of scenario S3, and an anchor with a blank BSSID.\<close>

definition mkAnchor :: "string \<Rightarrow> real \<Rightarrow> real \<Rightarrow> StoreMapAnchor" where
  "mkAnchor b x y = \<lparr>anchor_bssid = b, anchor_label = b, anchor_x = x, anchor_y = y,
     anchor_floor = 0, anchor_source = Mock, anchor_confidence = None\<rparr>"

definition s3Anchors :: "StoreMapAnchor list" where
  "s3Anchors = [mkAnchor ''AA:01'' 0 0, mkAnchor ''AA:02'' 10 0]"

definition s3Readings :: "WifiReading list" where
  "s3Readings = [\<lparr>bssid = ''aa:01'', level = - 60\<rparr>, \<lparr>bssid = '' aa:02 '', level = - 80\<rparr>]"

text \<open>What a matched reading adds to \<open>x\<close> and to \<open>y\<close> in the centroid loop.\<close>

definition weightedX :: "StoreMapAnchor list \<Rightarrow> WifiReading \<Rightarrow> real" where
  "weightedX ancs r =
     (case byBssid ancs (bssid r) of None \<Rightarrow> 0 | Some a \<Rightarrow> anchor_x a * wifiWeight (level r))"

definition weightedY :: "StoreMapAnchor list \<Rightarrow> WifiReading \<Rightarrow> real" where
  "weightedY ancs r =
     (case byBssid ancs (bssid r) of None \<Rightarrow> 0 | Some a \<Rightarrow> anchor_y a * wifiWeight (level r))"

section \<open>positioning/pdrEngine\<close>

datatype StepSource = DeviceMotionStep | PedometerStep

text \<open>The fields of \<open>PdrEngine\<close>; \<open>gravity\<close> is \<open>None\<close> while \<open>gravity.init\<close> is false, and
  \<open>peak\<close> is the pair of fields \<open>peakIn\<close>, \<open>peakMax\<close>.\<close>

record PdrEngine =
  headingDeg :: real
  gyroHeadingDeg :: real
  magHeadingDeg :: real
  yawRateDegPerSec :: real
  magReliability :: real
  strideScale :: real
  stepLengthMeters :: real
  deviceSteps :: nat
  pedometerSteps :: real
  lastStepAt :: real
  lastIntervalMs :: real
  lastMotionAt :: "real option"
  stationarySince :: "real option"
  magStrengthEma :: "real option"
  gravity :: "(real \<times> real \<times> real) option"
  linAccWindow :: "real list"
  peakIn :: bool
  peakMax :: real

text \<open>The engine as \<open>new PdrEngine()\<close> leaves it.\<close>

definition newPdrEngine :: PdrEngine where
  "newPdrEngine = \<lparr>headingDeg = 0, gyroHeadingDeg = 0, magHeadingDeg = 0, yawRateDegPerSec = 0,
     magReliability = 1/2, strideScale = 1, stepLengthMeters = 6/10, deviceSteps = 0,
     pedometerSteps = 0, lastStepAt = 0, lastIntervalMs = 0, lastMotionAt = None,
     stationarySince = None, magStrengthEma = None, gravity = None, linAccWindow = [],
     peakIn = False, peakMax = 0\<rparr>"

text \<open>\<open>reset(args)\<close>, with \<open>args.headingDeg\<close> and \<open>args.strideScale\<close> as options.\<close>

definition pdrReset :: "PdrEngine \<Rightarrow> real option \<Rightarrow> real option \<Rightarrow> PdrEngine" where
  "pdrReset en argHeading argStride =
     (let h = wrapHeading (case argHeading of None \<Rightarrow> 0 | Some v \<Rightarrow> v);
          sc = (case argStride of None \<Rightarrow> strideScale en | Some v \<Rightarrow> v)
      in \<lparr>headingDeg = h, gyroHeadingDeg = h, magHeadingDeg = h, yawRateDegPerSec = 0,
          magReliability = 1/2, strideScale = sc, stepLengthMeters = 6/10 * sc, deviceSteps = 0,
          pedometerSteps = 0, lastStepAt = 0, lastIntervalMs = 0, lastMotionAt = None,
          stationarySince = None, magStrengthEma = None, gravity = None, linAccWindow = [],
          peakIn = False, peakMax = 0\<rparr>)"

text \<open>A step event: the arguments \<open>(source, stepLenMeters, now, count)\<close> of \<open>onStep\<close>.\<close>

record StepEvent =
  ev_source :: StepSource
  ev_stepLen :: real
  ev_now :: real
  ev_count :: real

text \<open>
  A device-motion sample, as far as \<open>handleDeviceMotion\<close> reads it: \<open>rotation.alpha\<close> and
  \<open>rotationRate.alpha\<close> when they are numbers, \<open>acceleration\<close> and
  \<open>accelerationIncludingGravity\<close> when present.
\<close>

record MotionSample =
  rotationAlpha :: "real option"
  rotationRateAlpha :: "real option"
  acceleration :: "(real \<times> real \<times> real) option"
  accelerationIncludingGravity :: "(real \<times> real \<times> real) option"

definition toDeg :: "real \<Rightarrow> real" where
  "toDeg v = (if \<bar>v\<bar> \<le> pi * 2 + 1/2 then (v * 180) / pi else v)"

definition hypot3 :: "real \<Rightarrow> real \<Rightarrow> real \<Rightarrow> real" where
  "hypot3 a b c = sqrt (a\<^sup>2 + b\<^sup>2 + c\<^sup>2)"

text \<open>The locals \<open>mean\<close>, \<open>std\<close> and \<open>threshold\<close> computed from the window \<open>w\<close>.\<close>

definition windowMean :: "real list \<Rightarrow> real" where
  "windowMean w = sum_list w / (if length w = 0 then 1 else real (length w))"

definition windowStd :: "real list \<Rightarrow> real" where
  "windowStd w =
     (let mean = windowMean w;
          variance = (\<Sum>v\<leftarrow>w. (v - mean) * (v - mean)) / max 1 (real (length w) - 1)
      in sqrt variance)"

definition stepThreshold :: "real list \<Rightarrow> real" where
  "stepThreshold w = clamp (windowMean w + windowStd w * (26/10)) (6/100) (16/10)"

text \<open>The heading part of \<open>handleDeviceMotion\<close>: attitude yaw, yaw rate, magnetic pull.\<close>

definition motionHeading :: "PdrEngine \<Rightarrow> MotionSample \<Rightarrow> real \<Rightarrow> PdrEngine" where
  "motionHeading en sample now =
     (let prevTs = (case lastMotionAt en of None \<Rightarrow> now | Some v \<Rightarrow> v);
          dt = clamp ((now - prevTs) / 1000) (1/1000) (2/10);
          en1 = en\<lparr>lastMotionAt := Some now\<rparr>;
          en2 = (case rotationAlpha sample of
                   None \<Rightarrow> en1
                 | Some alpha \<Rightarrow>
                     let attitudeYaw = wrapHeading (toDeg alpha);
                         d = headingDiff attitudeYaw (headingDeg en1)
                     in en1\<lparr>gyroHeadingDeg := attitudeYaw,
                            headingDeg := wrapHeading (headingDeg en1 + clamp d (-20) 20)\<rparr>);
          en3 = (case rotationRateAlpha sample of
                   Some alpha \<Rightarrow>
                     let yawRate = clamp (toDeg alpha) (-720) 720
                     in en2\<lparr>yawRateDegPerSec := yawRate,
                            headingDeg := wrapHeading (headingDeg en2 + yawRate * dt)\<rparr>
                 | None \<Rightarrow> en2\<lparr>yawRateDegPerSec := 0\<rparr>);
          turningFast = (\<bar>yawRateDegPerSec en3\<bar> > 140);
          gain = (8/1000 + 5/100 * magReliability en3) * (if turningFast then 2/10 else 1);
          err = headingDiff (magHeadingDeg en3) (headingDeg en3)
      in en3\<lparr>headingDeg := wrapHeading (headingDeg en3 + err * gain)\<rparr>)"

text \<open>The linear acceleration \<open>(ax, ay, az)\<close> and the gravity estimate after the sample.\<close>

definition linearAcceleration ::
  "PdrEngine \<Rightarrow> MotionSample \<Rightarrow> (real \<times> real \<times> real) \<times> (real \<times> real \<times> real) option" where
  "linearAcceleration en sample =
     (case acceleration sample of
        Some lin \<Rightarrow> (lin, gravity en)
      | None \<Rightarrow>
          (case accelerationIncludingGravity sample of
             None \<Rightarrow> ((0, 0, 0), gravity en)
           | Some (ix, iy, iz) \<Rightarrow>
               let gg = (case gravity en of
                           None \<Rightarrow> (ix, iy, iz)
                         | Some (gx, gy, gz) \<Rightarrow>
                             (gx * (92/100) + ix * (1 - 92/100),
                              gy * (92/100) + iy * (1 - 92/100),
                              gz * (92/100) + iz * (1 - 92/100)))
               in (case gg of (gx, gy, gz) \<Rightarrow> ((ix - gx, iy - gy, iz - gz), Some gg))))"

text \<open>
  The block "Peak detector" of \<open>handleDeviceMotion\<close>, from the magnitude \<open>linMag\<close>, the
  window mean, the threshold and \<open>isStationary\<close>: the new engine and the step events passed
  to \<open>onStep\<close> (at most one).
\<close>

definition peakDetector ::
  "PdrEngine \<Rightarrow> real \<Rightarrow> real \<Rightarrow> real \<Rightarrow> bool \<Rightarrow> real \<Rightarrow> PdrEngine \<times> StepEvent list" where
  "peakDetector en2 linMag mean threshold isStationary now =
     (if \<not> peakIn en2 then
        (if linMag > threshold then (en2\<lparr>peakIn := True, peakMax := linMag\<rparr>, [])
         else (en2, []))
      else
        (let en3 = en2\<lparr>peakMax := max (peakMax en2) linMag\<rparr>
         in if linMag < mean then
              (let en4 = en3\<lparr>peakIn := False\<rparr>
               in if now - lastStepAt en4 > 280 \<and> peakMax en4 > threshold \<and> \<not> isStationary then
                    (let stepLen = max (45/100) (min (105/100)
                                     (62/100 + (peakMax en4 - threshold) * (18/100)));
                         en5 = en4\<lparr>lastIntervalMs := (if lastStepAt en4 \<noteq> 0
                                                        then now - lastStepAt en4 else 0),
                                    lastStepAt := now,
                                    stepLengthMeters := stepLen * strideScale en4,
                                    deviceSteps := deviceSteps en4 + 1\<rparr>
                     in (en5, [\<lparr>ev_source = DeviceMotionStep, ev_stepLen = stepLengthMeters en5,
                                ev_now = now, ev_count = 1\<rparr>]))
                  else (en4, []))
            else (en3, [])))"

text \<open>
  \<open>handleDeviceMotion\<close>: heading, linear acceleration, window statistics, stationarity, then
  the peak detector. The debug record it returns is a copy of values computed here and is
  left out.
\<close>

definition handleDeviceMotion :: "PdrEngine \<Rightarrow> MotionSample \<Rightarrow> real \<Rightarrow> PdrEngine \<times> StepEvent list" where
  "handleDeviceMotion en0 sample now =
     (let en1 = motionHeading en0 sample now;
          la = linearAcceleration en1 sample;
          linMag = (case fst la of (ax, ay, az) \<Rightarrow> hypot3 ax ay az);
          pushed = linAccWindow en1 @ [linMag];
          w = (if length pushed > 35 then tl pushed else pushed);
          mean = windowMean w;
          threshold = stepThreshold w;
          low = (linMag < max (2/100) (threshold * (25/100)));
          since = (if low then (case stationarySince en1 of None \<Rightarrow> Some now | Some s \<Rightarrow> Some s)
                   else None);
          isStationary = (case since of None \<Rightarrow> False | Some s \<Rightarrow> now - s > 600);
          en2 = en1\<lparr>gravity := snd la, linAccWindow := w, stationarySince := since\<rparr>
      in peakDetector en2 linMag mean threshold isStationary now)"

definition handlePedometerSteps ::
  "PdrEngine \<Rightarrow> real \<Rightarrow> real \<Rightarrow> bool \<Rightarrow> PdrEngine \<times> StepEvent list" where
  "handlePedometerSteps en totalSteps now recentlyDeviceMotion =
     (let prev = pedometerSteps en;
          en1 = en\<lparr>pedometerSteps := totalSteps\<rparr>;
          delta = (if prev = 0 then 0 else totalSteps - prev)
      in if delta > 0 \<and> \<not> recentlyDeviceMotion then
           (let en2 = en1\<lparr>lastIntervalMs := (if lastStepAt en1 \<noteq> 0 then now - lastStepAt en1 else 0),
                          lastStepAt := now\<rparr>
            in (en2, [\<lparr>ev_source = PedometerStep, ev_stepLen = stepLengthMeters en2,
                       ev_now = now, ev_count = delta\<rparr>]))
         else (en1, []))"

section \<open>positioning/useIndoorPositioning: the sensor listeners\<close>

text \<open>
  What the positioning session receives from the sensors: a device-motion sample or a
  pedometer count, each with the \<open>Date.now()\<close> of its arrival. The listeners pass it to the
  engine; the step events are what they hand to \<open>onStep\<close>.
\<close>

datatype SensorInput = Motion MotionSample real | Pedometer real real

fun sensorListener :: "PdrEngine \<Rightarrow> SensorInput \<Rightarrow> PdrEngine \<times> StepEvent list" where
  "sensorListener en (Motion m now) = handleDeviceMotion en m now"
| "sensorListener en (Pedometer steps now) =
     (let recentlyDeviceMotion = (lastStepAt en > 0 \<and> now - lastStepAt en < 1800)
      in handlePedometerSteps en steps now recentlyDeviceMotion)"

fun runSensors :: "PdrEngine \<Rightarrow> SensorInput list \<Rightarrow> PdrEngine \<times> StepEvent list" where
  "runSensors en [] = (en, [])"
| "runSensors en (i # inputs) =
     (case sensorListener en i of (en1, evs) \<Rightarrow>
        (case runSensors en1 inputs of (en2, evs') \<Rightarrow> (en2, evs @ evs')))"

fun inputTime :: "SensorInput \<Rightarrow> real" where
  "inputTime (Motion m now) = now"
| "inputTime (Pedometer steps now) = now"

text \<open>No pedometer step of the list comes less than 1800 ms after a device-motion step
  before it.\<close>

fun gateRespected :: "StepEvent list \<Rightarrow> bool" where
  "gateRespected [] = True"
| "gateRespected (e # es) =
     ((ev_source e = DeviceMotionStep \<longrightarrow>
         (\<forall>p \<in> set es. ev_source p = PedometerStep \<longrightarrow> 1800 \<le> ev_now p - ev_now e))
      \<and> gateRespected es)"

text \<open>A sample with only a linear acceleration along \<open>x\<close>.\<close>

definition accSample :: "real \<Rightarrow> MotionSample" where
  "accSample a = \<lparr>rotationAlpha = None, rotationRateAlpha = None,
     acceleration = Some (a, 0, 0), accelerationIncludingGravity = None\<rparr>"

text \<open>The fields of the engine that step detection and the pedometer gate read and write.\<close>

definition stepView ::
  "PdrEngine \<Rightarrow> real list \<times> bool \<times> real \<times> real \<times> real option \<times> real \<times> real \<times> real" where
  "stepView en = (linAccWindow en, peakIn en, peakMax en, lastStepAt en, stationarySince en,
     pedometerSteps en, stepLengthMeters en, strideScale en)"

text \<open>
  A walk: three device-motion samples 50 ms apart that make one step at 1100 ms, then the
  pedometer counts 10 at 1200 ms, 11 at 3000 ms and 12 at 3500 ms.
\<close>

definition walkInputs :: "SensorInput list" where
  "walkInputs = [Motion (accSample 0) 1000, Motion (accSample 2) 1050, Motion (accSample 0) 1100,
     Pedometer 10 1200, Pedometer 11 3000, Pedometer 12 3500]"

section \<open>nav/shortestPath\<close>

text \<open>
  \<open>Adj = Record<string, { to, w }[]>\<close>, as the list of its keys with their arrays, in the
  order \<open>Object.keys\<close> gives: the order in which the keys were first written (ids that are
  canonical array indices, which JavaScript lists first, are not modelled).
\<close>

type_synonym Adj = "(string \<times> (string \<times> real) list) list"

definition adjOf :: "Adj \<Rightarrow> string \<Rightarrow> (string \<times> real) list" where
  "adjOf adj k = (case map_of adj k of None \<Rightarrow> [] | Some vs \<Rightarrow> vs)"

text \<open>\<open>adj[k].push(v)\<close> for a key \<open>k\<close> of \<open>adj\<close>.\<close>

definition adjPush :: "Adj \<Rightarrow> string \<Rightarrow> string \<times> real \<Rightarrow> Adj" where
  "adjPush adj k v = map (\<lambda>(k', vs). if k' = k then (k', vs @ [v]) else (k', vs)) adj"

text \<open>\<open>new Map(nodes.map((n) => [n.id, n]))\<close> for a list of nodes.\<close>

definition byId :: "StoreMapNode list \<Rightarrow> string \<Rightarrow> StoreMapNode option" where
  "byId ns = map_of (rev (map (\<lambda>n. (node_id n, n)) ns))"

definition nodePoint :: "StoreMapNode \<Rightarrow> Point2" where
  "nodePoint n = \<lparr>ptx = node_x n, pty = node_y n\<rparr>"

definition adjacencyStep :: "(string \<Rightarrow> StoreMapNode option) \<Rightarrow> Adj \<Rightarrow> StoreMapEdge \<Rightarrow> Adj" where
  "adjacencyStep nodeOf adj e =
     (case nodeOf (edge_from e) of
        None \<Rightarrow> adj
      | Some from \<Rightarrow>
          (case nodeOf (edge_to e) of
             None \<Rightarrow> adj
           | Some to \<Rightarrow>
               let w = (case edge_distance e of
                          None \<Rightarrow> dist2 (nodePoint from) (nodePoint to) | Some d \<Rightarrow> d);
                   adj1 = adjPush adj (edge_from e) (edge_to e, w)
               in if bidirectional e \<noteq> Some False then adjPush adj1 (edge_to e) (edge_from e, w)
                  else adj1))"

definition buildAdjacency :: "StoreMapNode list \<Rightarrow> StoreMapEdge list \<Rightarrow> Adj" where
  "buildAdjacency ns es =
     foldl (adjacencyStep (byId ns)) (map (\<lambda>k. (k, [])) (rev (remdups (rev (map node_id ns))))) es"

text \<open>The scan \<open>q.forEach\<close> that picks \<open>u\<close>; the state is \<open>(u, best)\<close>.\<close>

fun selectMinLoop :: "(string \<Rightarrow> num) \<Rightarrow> string list \<Rightarrow> string option \<times> num \<Rightarrow> string option \<times> num" where
  "selectMinLoop distMap [] st = st"
| "selectMinLoop distMap (i # ids) (u, best) =
     (if num_less (distMap i) best then selectMinLoop distMap ids (Some i, distMap i)
      else selectMinLoop distMap ids (u, best))"

text \<open>The relaxation \<open>adj[u].forEach\<close>; the state is \<open>(distMap, prev)\<close>.\<close>

definition relaxStep ::
  "string \<Rightarrow> string list \<Rightarrow> string \<times> real \<Rightarrow> (string \<Rightarrow> num) \<times> (string \<Rightarrow> string option)
   \<Rightarrow> (string \<Rightarrow> num) \<times> (string \<Rightarrow> string option)" where
  "relaxStep u q tw st =
     (case tw of (to, w) \<Rightarrow>
        (case st of (distMap, prev) \<Rightarrow>
           if to \<notin> set q then (distMap, prev)
           else
             let alt = num_add (distMap u) (Fin w)
             in if num_less alt (distMap to) then (distMap(to := alt), prev(to := Some u))
                else (distMap, prev)))"

text \<open>
  The \<open>while (q.size)\<close> loop of \<open>dijkstra\<close>. \<open>if (!u) break\<close> leaves the loop when no id was
  picked, and also when the id picked is the empty string.
\<close>

function dijkstraLoop ::
  "Adj \<Rightarrow> (string \<Rightarrow> num) \<Rightarrow> (string \<Rightarrow> string option) \<Rightarrow> string list
   \<Rightarrow> (string \<Rightarrow> num) \<times> (string \<Rightarrow> string option)" where
  "dijkstraLoop adj distMap prev q =
     (if q = [] then (distMap, prev)
      else
        (case fst (selectMinLoop distMap q (None, PosInf)) of
           None \<Rightarrow> (distMap, prev)
         | Some u \<Rightarrow>
             if u = [] then (distMap, prev)
             else
               (case fold (relaxStep u (removeAll u q)) (adjOf adj u) (distMap, prev) of
                  (distMap', prev') \<Rightarrow> dijkstraLoop adj distMap' prev' (removeAll u q))))"
  by pat_completeness auto
termination
proof (relation "measure (\<lambda>(adj, distMap, prev, q). length q)", goal_cases)
  case 1
  show ?case by simp
next
  case (2 adj distMap prev q u)
  have mem: "fst (selectMinLoop distMap ids s) = Some v \<Longrightarrow> v \<in> set ids \<or> fst s = Some v"
    for ids s v
  proof (induction ids arbitrary: s)
    case Nil
    then show ?case by simp
  next
    case (Cons i ids)
    obtain u0 b0 where s: "s = (u0, b0)" by (cases s)
    show ?case
    proof (cases "num_less (distMap i) b0")
      case True
      then have "fst (selectMinLoop distMap ids (Some i, distMap i)) = Some v"
        using Cons.prems s by simp
      from Cons.IH[OF this] show ?thesis by auto
    next
      case False
      then have "fst (selectMinLoop distMap ids (u0, b0)) = Some v"
        using Cons.prems s by simp
      from Cons.IH[OF this] show ?thesis using s by auto
    qed
  qed
  have "u \<in> set q" using mem[of q "(None, PosInf)" u] 2 by simp
  then have "length (removeAll u q) < length q"
    by (simp add: length_removeAll_less)
  then show ?case by simp
qed

declare dijkstraLoop.simps [simp del]

definition dijkstra :: "Adj \<Rightarrow> string \<Rightarrow> (string \<Rightarrow> num) \<times> (string \<Rightarrow> string option)" where
  "dijkstra adj startId =
     dijkstraLoop adj (\<lambda>i. if i = startId then Fin 0 else PosInf) (\<lambda>i. None) (map fst adj)"

text \<open>
  The loop of \<open>reconstruct\<close>, which follows \<open>prev\<close> and need not end for an arbitrary
  \<open>prev\<close>: \<open>None\<close> is the loop that does not end. \<open>while (cur)\<close> also stops at the empty
  string.
\<close>

partial_function (option) reconstructLoop ::
  "(string \<Rightarrow> string option) \<Rightarrow> string \<Rightarrow> string option \<Rightarrow> string list \<Rightarrow> string list option" where
  "reconstructLoop prev startId cur path =
     (case cur of
        None \<Rightarrow> Some path
      | Some c \<Rightarrow>
          if c = [] then Some path
          else if c = startId then Some (path @ [c])
          else reconstructLoop prev startId (prev c) (path @ [c]))"

definition reconstruct :: "(string \<Rightarrow> string option) \<Rightarrow> string \<Rightarrow> string \<Rightarrow> string list option" where
  "reconstruct prev startId endId = map_option rev (reconstructLoop prev startId (Some endId) [])"

record PathResult =
  nodeIds :: "string list"
  points :: "Point2 list"
  lengthMeters :: real

text \<open>The sum \<open>lengthMeters\<close> over consecutive points.\<close>

fun pathLength :: "Point2 list \<Rightarrow> real" where
  "pathLength (a # b # ps) = dist2 a b + pathLength (b # ps)"
| "pathLength _ = 0"

text \<open>
  \<open>shortestPathFromPoint\<close>. The result is \<open>None\<close> when \<open>reconstruct\<close> does not end,
  \<open>Some None\<close> for \<open>null\<close> and \<open>Some (Some r)\<close> for the path \<open>r\<close>.
\<close>

definition virtualId :: string where
  "virtualId = ''__start__''"

definition shortestPathFromPoint :: "StoreMap \<Rightarrow> Point2 \<Rightarrow> string \<Rightarrow> PathResult option option" where
  "shortestPathFromPoint m startPoint endNodeId =
     (if \<not> (\<exists>n \<in> set (nodes m). node_id n = endNodeId) then Some None
      else
        let snp = snapToGraph m startPoint
                    \<lparr>maxSnapMeters = Some 3, previousEdge = None, switchPenaltyMeters = None,
                     hardClamp = None\<rparr>;
            nodesById = nodeById m;
            baseEdges = (case edges m of None \<Rightarrow> [] | Some es \<Rightarrow> es);
            virtualNode = \<lparr>node_id = virtualId, node_label = ''Start'', node_x = ptx (snapped snp),
                             node_y = pty (snapped snp), node_floor = 0, node_type = Walkway,
                             sectionId = None\<rparr>;
            virtualEdges =
              (case edge snp of
                 Some r \<Rightarrow>
                   (case nodesById (ref_from r) of
                      None \<Rightarrow> []
                    | Some a \<Rightarrow>
                        (case nodesById (ref_to r) of
                           None \<Rightarrow> []
                         | Some b \<Rightarrow>
                             let da = dist2 (nodePoint virtualNode) (nodePoint a);
                                 db = dist2 (nodePoint virtualNode) (nodePoint b)
                             in [\<lparr>edge_from = virtualId, edge_to = node_id a,
                                   edge_distance = Some da, bidirectional = Some True\<rparr>,
                                 \<lparr>edge_from = virtualId, edge_to = node_id b,
                                   edge_distance = Some db, bidirectional = Some True\<rparr>]))
               | None \<Rightarrow>
                   (case nearestNodeId m startPoint None of
                      None \<Rightarrow> []
                    | Some nearest \<Rightarrow>
                        if nearest = [] then []
                        else
                          (case nodesById nearest of
                             None \<Rightarrow> []
                           | Some n \<Rightarrow>
                               [\<lparr>edge_from = virtualId, edge_to = node_id n,
                                 edge_distance = Some (dist2 (nodePoint virtualNode) (nodePoint n)),
                                 bidirectional = Some True\<rparr>])));
            ns = nodes m @ [virtualNode];
            es = baseEdges @ virtualEdges;
            adj = buildAdjacency ns es
        in (case dijkstra adj virtualId of
              (d, prev) \<Rightarrow>
                (case d endNodeId of
                   PosInf \<Rightarrow> Some None
                 | Fin _ \<Rightarrow>
                     (case reconstruct prev virtualId endNodeId of
                        None \<Rightarrow> None
                      | Some ids \<Rightarrow>
                          let pts = map (\<lambda>i. if i = virtualId
                                               then \<lparr>ptx = node_x virtualNode, pty = node_y virtualNode\<rparr>
                                               else (case nodesById i of
                                                       None \<Rightarrow> \<lparr>ptx = 0, pty = 0\<rparr>
                                                     | Some n \<Rightarrow> \<lparr>ptx = node_x n, pty = node_y n\<rparr>)) ids
                          in Some (Some \<lparr>nodeIds = ids, points = pts,
                                          lengthMeters = pathLength pts\<rparr>)))))"

text \<open>
  Three nodes in a row, joined \<open>first - b - c\<close>, where the id of the first node is the empty
  string in \<open>emptyIdMap\<close> and \<open>a\<close> in \<open>namedIdMap\<close>.
\<close>

definition rowMap :: "string \<Rightarrow> StoreMap" where
  "rowMap first = \<lparr>map_id = ''row'', map_label = ''row'', gridSize = 1,
     nodes = [mkNode first 0 0, mkNode ''b'' 10 0, mkNode ''c'' 20 0],
     edges = Some [mkEdge first ''b'', mkEdge ''b'' ''c''], anchors = None\<rparr>"

definition emptyIdMap :: StoreMap where
  "emptyIdMap = rowMap ''''"

definition namedIdMap :: StoreMap where
  "namedIdMap = rowMap ''a''"

text \<open>
  The keys of an adjacency, its successor relation, and the adjacencies on which \<open>dijkstra\<close>
  is studied: no key is the empty string and every successor is a key.
\<close>

definition adjKeys :: "Adj \<Rightarrow> string set" where
  "adjKeys adj = fst ` set adj"

definition adjRel :: "Adj \<Rightarrow> (string \<times> string) set" where
  "adjRel adj = {(u, v). \<exists>w. (v, w) \<in> set (adjOf adj u)}"

definition adjOk :: "Adj \<Rightarrow> bool" where
  "adjOk adj \<longleftrightarrow> [] \<notin> adjKeys adj \<and> (\<forall>(u, v) \<in> adjRel adj. v \<in> adjKeys adj)"

text \<open>
  The invariant of the \<open>while\<close> loop of \<open>dijkstra\<close>: the queue holds keys, every finite
  distance belongs to a node reached from the start, and every key that has left the queue is
  finite together with its successors.
\<close>

definition dijkstraInv :: "Adj \<Rightarrow> string \<Rightarrow> (string \<Rightarrow> num) \<Rightarrow> string list \<Rightarrow> bool" where
  "dijkstraInv adj start d q \<longleftrightarrow>
     set q \<subseteq> adjKeys adj \<and> start \<in> adjKeys adj \<and> d start \<noteq> PosInf
     \<and> (\<forall>v. d v \<noteq> PosInf \<longrightarrow> (start, v) \<in> (adjRel adj)\<^sup>*)
     \<and> (\<forall>u \<in> adjKeys adj - set q. d u \<noteq> PosInf \<and> (\<forall>v. (u, v) \<in> adjRel adj \<longrightarrow> d v \<noteq> PosInf))"

text \<open>What \<open>buildAdjacency\<close> keeps: the keys are \<open>K\<close> and every array only names ids of \<open>K\<close>.\<close>

definition adjClosed :: "string set \<Rightarrow> Adj \<Rightarrow> bool" where
  "adjClosed K adj \<longleftrightarrow>
     fst ` set adj = K \<and> (\<forall>(k, vs) \<in> set adj. \<forall>(t, w) \<in> set vs. t \<in> K)"

section \<open>Properties\<close>

subsection \<open>Heading differences\<close>

lemma js_rem_nonneg_range:
  assumes "0 \<le> a" "0 < n"
  shows "0 \<le> js_rem a n \<and> js_rem a n < n"
proof -
  have q: "0 \<le> a / n" using assms by simp
  have lo: "of_int \<lfloor>a / n\<rfloor> * n \<le> a"
    using assms(2) by (metis floor_divide_lower)
  have hi: "a < (of_int \<lfloor>a / n\<rfloor> + 1) * n"
    using assms(2) by (metis floor_divide_upper)
  show ?thesis
    using q lo hi by (simp add: js_rem_def js_trunc_def algebra_simps)
qed

text \<open>
  C2, as stated, fails: \<open>headingDiff(180, 0)\<close> is \<open>-180\<close>, the end the claim's interval
  leaves out, and \<open>headingDiff(0, 1000)\<close> is \<open>-280\<close>, since \<open>%\<close> keeps the sign of a
  negative dividend.
\<close>

theorem headingDiff_interval_counterexample:
  "headingDiff 180 0 = -180 \<and> headingDiff 0 1000 = -280"
  by (simp add: headingDiff_def js_rem_def js_trunc_def)

text \<open>
  C2, amended: for all real headings \<open>a\<close> and \<open>b\<close> with \<open>a - b \<ge> -540\<close> (so for all
  wrapped headings), \<open>headingDiff a b\<close> lies in the half-open interval \<open>[-180, 180)\<close>;
  and \<open>headingDiff a a = 0\<close> for every \<open>a\<close>.
\<close>

theorem headingDiff_range:
  "(- 540 \<le> a - b \<longrightarrow> - 180 \<le> headingDiff a b \<and> headingDiff a b < 180)
   \<and> headingDiff a a = 0"
proof -
  have self: "headingDiff a a = 0"
    by (simp add: headingDiff_def js_rem_def js_trunc_def)
  have rng: "- 180 \<le> headingDiff a b \<and> headingDiff a b < 180" if "- 540 \<le> a - b"
    using that js_rem_nonneg_range[of "a - b + 540" 360] by (simp add: headingDiff_def)
  show ?thesis using self rng by blast
qed

theorem headingDiff_range_witness:
  "- 540 \<le> (350::real) - 10 \<and> headingDiff 350 10 = - 20 \<and> - 180 \<le> headingDiff 350 10
   \<and> headingDiff 350 10 < 180"
proof -
  have v: "headingDiff 350 10 = - 20"
    by (simp add: headingDiff_def js_rem_def js_trunc_def)
  show ?thesis using headingDiff_range[of 350 10] v by simp
qed

subsection \<open>The Kalman filter\<close>

lemma kalmanGain_eq:
  "kalmanGain s m =
     (let r = max (1/10^6) (m * m);
          d = innovationDet s m
      in ((p00 s * (p11 s + r) - p01 s * p01 s) / d,
          (p01 s * (p00 s + r) - p00 s * p01 s) / d,
          (p01 s * (p11 s + r) - p11 s * p01 s) / d,
          (p11 s * (p00 s + r) - p01 s * p01 s) / d))"
  by (simp add: kalmanGain_def innovationDet_def Let_def diff_divide_distrib)

lemma trace_drop_algebra:
  fixes a b c r d :: real
  assumes "d \<noteq> 0"
  shows "a + c - (((1 - (a * (c + r) - b * b) / d) * a - ((b * (a + r) - a * b) / d) * b)
                  + (- ((b * (c + r) - c * b) / d) * b + (1 - (c * (a + r) - b * b) / d) * c))
         = ((a + c) * (a * c - b * b) + r * (a * a + 2 * (b * b) + c * c)) / d"
  using assms by (simp add: field_simps)

lemma symmetry_algebra:
  fixes a b c r d :: real
  assumes "d \<noteq> 0"
  shows "(1 - (a * (c + r) - b * b) / d) * b - ((b * (a + r) - a * b) / d) * c
       = - ((b * (c + r) - c * b) / d) * a + (1 - (c * (a + r) - b * b) / d) * b"
  using assms by (simp add: field_simps)

lemma innovationDet_ge:
  assumes "psd s"
  shows "(max (1/10^6) (m * m))\<^sup>2 \<le> innovationDet s m"
proof -
  let ?r = "max (1/10^6) (m * m)"
  have rpos: "0 < ?r" by simp
  have psd': "0 \<le> p00 s" "0 \<le> p11 s" "p01 s * p01 s \<le> p00 s * p11 s"
    using assms by (simp_all add: psd_def)
  have "innovationDet s m = ?r\<^sup>2 + ?r * (p00 s + p11 s) + (p00 s * p11 s - p01 s * p01 s)"
    by (simp add: innovationDet_def Let_def algebra_simps power2_eq_square)
  moreover have "0 \<le> ?r * (p00 s + p11 s)" using rpos psd' by simp
  ultimately show ?thesis using psd' by linarith
qed

lemma updateKalman2D_trace:
  assumes "psd s"
  shows "p00 (updateKalman2D s z m) + p11 (updateKalman2D s z m) \<le> p00 s + p11 s"
proof (cases "innovationDet s m \<le> 1/10^12")
  case True
  then show ?thesis by (simp add: updateKalman2D_def)
next
  case False
  let ?r = "max (1/10^6) (m * m)"
  define d where "d = innovationDet s m"
  have rpos: "0 < ?r" by simp
  have dpos: "0 < d" using False by (simp add: d_def) 
  have psd': "0 \<le> p00 s" "0 \<le> p11 s" "p01 s * p01 s \<le> p00 s * p11 s"
    using assms by (simp_all add: psd_def)
  have num: "0 \<le> (p00 s + p11 s) * (p00 s * p11 s - p01 s * p01 s)
        + ?r * (p00 s * p00 s + 2 * (p01 s * p01 s) + p11 s * p11 s)"
  proof -
    have a: "0 \<le> (p00 s + p11 s) * (p00 s * p11 s - p01 s * p01 s)"
      using psd' by (intro mult_nonneg_nonneg) simp_all
    have b: "0 \<le> p00 s * p00 s + 2 * (p01 s * p01 s) + p11 s * p11 s"
      using zero_le_square[of "p00 s"] zero_le_square[of "p01 s"] zero_le_square[of "p11 s"] by linarith
    have c: "0 \<le> ?r * (p00 s * p00 s + 2 * (p01 s * p01 s) + p11 s * p11 s)"
      using b rpos by (intro mult_nonneg_nonneg) simp_all
    show ?thesis using a c by linarith
  qed
  have eq: "p00 s + p11 s - (p00 (updateKalman2D s z m) + p11 (updateKalman2D s z m))
     = ((p00 s + p11 s) * (p00 s * p11 s - p01 s * p01 s)
        + ?r * (p00 s * p00 s + 2 * (p01 s * p01 s) + p11 s * p11 s)) / d"
    using False trace_drop_algebra[of d "p00 s" "p11 s" ?r "p01 s"] dpos
    by (simp add: updateKalman2D_def kalmanGain_eq Let_def d_def[symmetric])
  have "0 \<le> p00 s + p11 s - (p00 (updateKalman2D s z m) + p11 (updateKalman2D s z m))"
    unfolding eq using num dpos by simp
  then show ?thesis by simp
qed

lemma updateKalman2D_p01_p10: "p01 (updateKalman2D s z m) = updatedP10 s m"
proof (cases "innovationDet s m \<le> 1/10^12")
  case True
  then show ?thesis by (simp add: updateKalman2D_def updatedP10_def)
next
  case False
  let ?r = "max (1/10^6) (m * m)"
  define d where "d = innovationDet s m"
  have dnz: "d \<noteq> 0" 
  proof
    assume "d = 0" then show False using False by (simp add: d_def)
  qed
  show ?thesis
    using False symmetry_algebra[of d "p00 s" "p11 s" ?r "p01 s"] dnz
    by (simp add: updateKalman2D_def updatedP10_def kalmanGain_eq Let_def d_def[symmetric])
qed

text \<open>
  C6: for every state with a positive semidefinite covariance and every measurement sigma,
  after \<open>updateKalman2D\<close> the covariance is symmetric within \<open>10^-9\<close> (the stored \<open>p01\<close>
  and the lower left entry of \<open>(I - K) P\<close> agree), its trace \<open>p00 + p11\<close> has not
  increased, and the update skipped when \<open>det(S) \<le> 10^-12\<close> leaves the state unchanged.
\<close>

theorem updateKalman2D_symmetric_trace:
  assumes "psd s"
  shows "\<bar>p01 (updateKalman2D s z measSigmaMeters) - updatedP10 s measSigmaMeters\<bar> \<le> 1/10^9
     \<and> p00 (updateKalman2D s z measSigmaMeters) + p11 (updateKalman2D s z measSigmaMeters)
         \<le> p00 s + p11 s
     \<and> (innovationDet s measSigmaMeters \<le> 1/10^12 \<longrightarrow> updateKalman2D s z measSigmaMeters = s)"
proof -
  have a: "\<bar>p01 (updateKalman2D s z measSigmaMeters) - updatedP10 s measSigmaMeters\<bar> \<le> 1/10^9"
    by (simp add: updateKalman2D_p01_p10)
  have b: "innovationDet s measSigmaMeters \<le> 1/10^12 \<longrightarrow> updateKalman2D s z measSigmaMeters = s"
    by (simp add: updateKalman2D_def)
  show ?thesis using a b updateKalman2D_trace[OF assms] by blast
qed

theorem updateKalman2D_symmetric_trace_witness:
  "psd \<lparr>kx = 0, ky = 0, p00 = 1, p01 = 0, p11 = 1\<rparr>
   \<and> p00 (updateKalman2D \<lparr>kx = 0, ky = 0, p00 = 1, p01 = 0, p11 = 1\<rparr> \<lparr>vx = 1, vy = 1\<rparr> 1)
     + p11 (updateKalman2D \<lparr>kx = 0, ky = 0, p00 = 1, p01 = 0, p11 = 1\<rparr> \<lparr>vx = 1, vy = 1\<rparr> 1) \<le> 2
   \<and> psd \<lparr>kx = 0, ky = 0, p00 = 0, p01 = 0, p11 = 0\<rparr>
   \<and> innovationDet \<lparr>kx = 0, ky = 0, p00 = 0, p01 = 0, p11 = 0\<rparr> 0 \<le> 1/10^12
   \<and> updateKalman2D \<lparr>kx = 0, ky = 0, p00 = 0, p01 = 0, p11 = 0\<rparr> \<lparr>vx = 1, vy = 1\<rparr> 0
       = \<lparr>kx = 0, ky = 0, p00 = 0, p01 = 0, p11 = 0\<rparr>"
proof -
  have h1: "psd \<lparr>kx = 0, ky = 0, p00 = 1, p01 = 0, p11 = 1\<rparr>"
    by (simp add: psd_def)
  have h2: "psd \<lparr>kx = 0, ky = 0, p00 = 0, p01 = 0, p11 = 0\<rparr>"
    by (simp add: psd_def)
  have h3: "innovationDet \<lparr>kx = 0, ky = 0, p00 = 0, p01 = 0, p11 = 0\<rparr> 0 \<le> 1/10^12"
    by (simp add: innovationDet_def Let_def)
  show ?thesis
    using h1 h2 h3
      updateKalman2D_symmetric_trace[OF h1, of "\<lparr>vx = 1, vy = 1\<rparr>" 1]
      updateKalman2D_symmetric_trace[OF h2, of "\<lparr>vx = 1, vy = 1\<rparr>" 0]
    by simp
qed

lemma kalmanReachable_inv: "kalmanReachable s \<Longrightarrow> p01 s = 0 \<and> p00 s = p11 s"
proof (induction rule: kalmanReachable.induct)
  case (created start posSigmaMeters)
  then show ?case by (simp add: createKalman2D_def Let_def)
next
  case (predicted s delta processSigmaMeters)
  then show ?case by (simp add: predictKalman2D_def Let_def)
next
  case (updated s z measSigmaMeters)
  then show ?case
    by (simp add: updateKalman2D_def kalmanGain_eq innovationDet_def Let_def)
qed

lemma kalmanGain_isotropic: "p01 s = 0 \<Longrightarrow> p00 s = p11 s \<Longrightarrow> 
   (case kalmanGain s m of (k00, k01, k10, k11) \<Rightarrow> k01 = 0 \<and> k10 = 0 \<and> k00 = k11)"
  by (simp add: kalmanGain_eq Let_def)


lemma updateKalman2D_kx_isotropic:
  assumes "p01 s = 0" "p00 s = p11 s"
  shows "kx (updateKalman2D s z m) = kx (updateKalman2D s (z\<lparr>vy := w\<rparr>) m)"
  using assms by (simp add: updateKalman2D_def kalmanGain_eq Let_def)

lemma updateKalman2D_ky_isotropic:
  assumes "p01 s = 0" "p00 s = p11 s"
  shows "ky (updateKalman2D s z m) = ky (updateKalman2D s (z\<lparr>vx := w\<rparr>) m)"
  using assms by (simp add: updateKalman2D_def kalmanGain_eq Let_def)

text \<open>
  C10: every state reachable from \<open>createKalman2D\<close> by \<open>predictKalman2D\<close> and
  \<open>updateKalman2D\<close> has \<open>p01 = 0\<close> and \<open>p00 = p11\<close>; there the gain terms \<open>k01\<close> and
  \<open>k10\<close> of an update are zero, and the two coordinates are filtered independently: the
  new \<open>x\<close> does not depend on the measured \<open>y\<close>, nor the new \<open>y\<close> on the measured \<open>x\<close>.
\<close>

theorem kalmanReachable_isotropic:
  assumes "kalmanReachable s"
  shows "p01 s = 0 \<and> p00 s = p11 s
     \<and> fst (snd (kalmanGain s measSigmaMeters)) = 0
     \<and> fst (snd (snd (kalmanGain s measSigmaMeters))) = 0
     \<and> kx (updateKalman2D s z measSigmaMeters) = kx (updateKalman2D s (z\<lparr>vy := w\<rparr>) measSigmaMeters)
     \<and> ky (updateKalman2D s z measSigmaMeters) = ky (updateKalman2D s (z\<lparr>vx := w\<rparr>) measSigmaMeters)"
proof -
  have inv: "p01 s = 0" "p00 s = p11 s"
    using kalmanReachable_inv[OF assms] by simp_all
  have g: "fst (snd (kalmanGain s measSigmaMeters)) = 0"
          "fst (snd (snd (kalmanGain s measSigmaMeters))) = 0"
    using kalmanGain_isotropic[OF inv, of measSigmaMeters] by (auto split: prod.splits)
  show ?thesis
    using inv g updateKalman2D_kx_isotropic[OF inv] updateKalman2D_ky_isotropic[OF inv]
    by blast
qed

theorem kalmanReachable_isotropic_witness:
  "kalmanReachable (updateKalman2D (predictKalman2D (createKalman2D \<lparr>vx = 0, vy = 0\<rparr> (3/2))
       \<lparr>vx = 1, vy = 0\<rparr> (3/10)) \<lparr>vx = 2, vy = 1\<rparr> 2)
   \<and> p01 (updateKalman2D (predictKalman2D (createKalman2D \<lparr>vx = 0, vy = 0\<rparr> (3/2))
       \<lparr>vx = 1, vy = 0\<rparr> (3/10)) \<lparr>vx = 2, vy = 1\<rparr> 2) = 0"
proof -
  have r: "kalmanReachable (updateKalman2D (predictKalman2D (createKalman2D \<lparr>vx = 0, vy = 0\<rparr> (3/2))
       \<lparr>vx = 1, vy = 0\<rparr> (3/10)) \<lparr>vx = 2, vy = 1\<rparr> 2)"
    by (intro kalmanReachable.intros)
  show ?thesis using r kalmanReachable_isotropic[OF r] by simp
qed

subsection \<open>Turn-by-turn instructions\<close>

lemma hypot_zero_left: "hypot 0 b = \<bar>b\<bar>"
  by (simp add: hypot_def)

lemma hypot_zero_right: "hypot a 0 = \<bar>a\<bar>"
  by (simp add: hypot_def)

lemma toLowerCase_turn_left: "toLowerCase ''Turn left'' = ''turn left''"
  by code_simp

lemma toLowerCase_turn_right: "toLowerCase ''Turn right'' = ''turn right''"
  by code_simp

lemma numberToString_1: "numberToString (Suc 0) = ''1''"
  by code_simp

lemma numberToString_13: "numberToString 13 = ''13''"
  by code_simp

text \<open>
  C4, as stated, fails: the code rounds the distance to the nearest metre with
  \<open>Math.round\<close>, it does not round up, writes no space before \<open>m\<close> and lower-cases the
  instruction. At 1.2 m before a left turn it returns "In 1m, turn left", where the
  claim's ceiling is 2.
\<close>

theorem formatNextInstruction_ceiling_counterexample:
  "formatNextInstruction (Some \<lparr>mtype = MLeft, atIndex = 1, mpoint = \<lparr>ptx = 0, pty = 0\<rparr>,
       distanceFromStartMeters = 5, instruction = ''Turn left''\<rparr>) (Some (6/5))
     = ''In 1m, turn left''
   \<and> \<lceil>6/5 :: real\<rceil> = 2"
  by (simp add: formatNextInstruction_def js_round_def numberToString_1 toLowerCase_turn_left)

lemma digitChar_value: "d < 10 \<Longrightarrow> (of_char (digitChar d) :: nat) - 48 = d"
  by (simp add: digitChar_def)

lemma decimalValue_snoc: "decimalValue (s @ [c]) = 10 * decimalValue s + (of_char c - 48)"
  by (simp add: decimalValue_def)

lemma numberToString_value: "decimalValue (numberToString n) = n"
proof (induction n rule: numberToString.induct)
  case (1 n)
  show ?case
  proof (cases "n < 10")
    case True
    then show ?thesis
      by (subst numberToString.simps) (simp add: decimalValue_def digitChar_value)
  next
    case False
    have "decimalValue (numberToString n)
        = 10 * decimalValue (numberToString (n div 10)) + (of_char (digitChar (n mod 10)) - 48)"
      using False by (subst numberToString.simps) (simp add: decimalValue_snoc)
    also have "\<dots> = 10 * (n div 10) + n mod 10"
      using "1.IH"[OF False] by (simp add: digitChar_value)
    finally show ?thesis by simp
  qed
qed

lemma js_round_nearest: "real_of_int (js_round x) - 1/2 \<le> x \<and> x < real_of_int (js_round x) + 1/2"
  unfolding js_round_def by linarith

text \<open>
  C4, amended: \<open>formatNextInstruction\<close> returns "Select a destination" when the maneuver is
  null; "Start walking" when its type is start; for arrive, "Arrive" when the distance is
  given and below 2, "Continue to destination" otherwise; for every other type the
  maneuver's instruction unchanged when the distance is null, and otherwise
  "In <k>m, <instruction in lower case>" where \<open>k = max(0, round(d))\<close> is the distance
  rounded to the nearest metre (a half rounds up), written with its decimal digits, for
  every distance with \<open>k \<le> 2^53\<close>.
\<close>

theorem formatNextInstruction_cases:
  "formatNextInstruction None d = ''Select a destination''
   \<and> (mtype m = MStart \<longrightarrow> formatNextInstruction (Some m) d = ''Start walking'')
   \<and> (mtype m = MArrive \<longrightarrow>
        formatNextInstruction (Some m) None = ''Continue to destination''
        \<and> formatNextInstruction (Some m) (Some x)
            = (if x < 2 then ''Arrive'' else ''Continue to destination''))
   \<and> (mtype m \<noteq> MStart \<and> mtype m \<noteq> MArrive \<longrightarrow>
        formatNextInstruction (Some m) None = instruction m
        \<and> (max 0 (js_round x) \<le> 2 ^ 53 \<longrightarrow>
             formatNextInstruction (Some m) (Some x)
               = ''In '' @ numberToString (nat (max 0 (js_round x))) @ ''m, ''
                   @ toLowerCase (instruction m)
             \<and> decimalValue (numberToString (nat (max 0 (js_round x))))
                 = nat (max 0 (js_round x))))
   \<and> real_of_int (js_round x) - 1/2 \<le> x \<and> x < real_of_int (js_round x) + 1/2"
  using js_round_nearest[of x] numberToString_value[of "nat (max 0 (js_round x))"]
  by (simp add: formatNextInstruction_def Let_def)

theorem formatNextInstruction_cases_witness:
  "formatNextInstruction (Some \<lparr>mtype = MStart, atIndex = 0, mpoint = \<lparr>ptx = 0, pty = 0\<rparr>,
       distanceFromStartMeters = 0, instruction = ''Start''\<rparr>) (Some 3) = ''Start walking''
   \<and> formatNextInstruction (Some \<lparr>mtype = MArrive, atIndex = 2, mpoint = \<lparr>ptx = 0, pty = 0\<rparr>,
       distanceFromStartMeters = 9, instruction = ''Arrive''\<rparr>) (Some (3/2)) = ''Arrive''
   \<and> formatNextInstruction (Some \<lparr>mtype = MArrive, atIndex = 2, mpoint = \<lparr>ptx = 0, pty = 0\<rparr>,
       distanceFromStartMeters = 9, instruction = ''Arrive''\<rparr>) (Some 2) = ''Continue to destination''
   \<and> max 0 (js_round (25/2)) \<le> 2 ^ 53
   \<and> formatNextInstruction (Some \<lparr>mtype = MRight, atIndex = 1, mpoint = \<lparr>ptx = 0, pty = 0\<rparr>,
       distanceFromStartMeters = 5, instruction = ''Turn right''\<rparr>) (Some (25/2))
       = ''In 13m, turn right''"
proof -
  have r: "js_round (25/2) = 13" by (simp add: js_round_def)
  show ?thesis
    using
      formatNextInstruction_cases[of "Some 3" "\<lparr>mtype = MStart, atIndex = 0,
        mpoint = \<lparr>ptx = 0, pty = 0\<rparr>, distanceFromStartMeters = 0, instruction = ''Start''\<rparr>" 0]
      formatNextInstruction_cases[of None "\<lparr>mtype = MArrive, atIndex = 2,
        mpoint = \<lparr>ptx = 0, pty = 0\<rparr>, distanceFromStartMeters = 9, instruction = ''Arrive''\<rparr>" "3/2"]
      formatNextInstruction_cases[of None "\<lparr>mtype = MArrive, atIndex = 2,
        mpoint = \<lparr>ptx = 0, pty = 0\<rparr>, distanceFromStartMeters = 9, instruction = ''Arrive''\<rparr>" 2]
      formatNextInstruction_cases[of None "\<lparr>mtype = MRight, atIndex = 1,
        mpoint = \<lparr>ptx = 0, pty = 0\<rparr>, distanceFromStartMeters = 5, instruction = ''Turn right''\<rparr>" "25/2"]
    by (simp add: r numberToString_13 toLowerCase_turn_right)
qed

lemma maneuverStep_new:
  "\<exists>new. snd (maneuverStep polyline i (c, ms)) = ms @ new
      \<and> (\<forall>m \<in> set new. mtype m \<in> {MLeft, MRight, MUturn} \<and> atIndex m = i
            \<and> 28 \<le> \<bar>turnDelta polyline i\<bar>)"
  by (auto simp: maneuverStep_def Let_def classifyTurn_def split: if_splits)

lemma fold_maneuverStep_new:
  "\<exists>new. snd (fold (maneuverStep polyline) idxs st) = snd st @ new
      \<and> (\<forall>m \<in> set new. mtype m \<in> {MLeft, MRight, MUturn} \<and> atIndex m \<in> set idxs
            \<and> 28 \<le> \<bar>turnDelta polyline (atIndex m)\<bar>)"
proof (induction idxs arbitrary: st)
  case Nil
  then show ?case by simp
next
  case (Cons i idxs)
  obtain c ms where st: "st = (c, ms)" by (cases st)
  obtain new1 where n1: "snd (maneuverStep polyline i (c, ms)) = ms @ new1"
    "\<forall>m \<in> set new1. mtype m \<in> {MLeft, MRight, MUturn} \<and> atIndex m = i
            \<and> 28 \<le> \<bar>turnDelta polyline i\<bar>"
    using maneuverStep_new[of polyline i c ms] by blast
  obtain new2 where n2: "snd (fold (maneuverStep polyline) idxs (maneuverStep polyline i st))
       = snd (maneuverStep polyline i st) @ new2"
    "\<forall>m \<in> set new2. mtype m \<in> {MLeft, MRight, MUturn} \<and> atIndex m \<in> set idxs
            \<and> 28 \<le> \<bar>turnDelta polyline (atIndex m)\<bar>"
    using Cons.IH[of "maneuverStep polyline i st"] by blast
  have "snd (fold (maneuverStep polyline) (i # idxs) st) = snd st @ (new1 @ new2)"
    using n1(1) n2(1) st by simp
  moreover have "\<forall>m \<in> set (new1 @ new2). mtype m \<in> {MLeft, MRight, MUturn}
        \<and> atIndex m \<in> set (i # idxs) \<and> 28 \<le> \<bar>turnDelta polyline (atIndex m)\<bar>"
    using n1(2) n2(2) by auto
  ultimately show ?case by blast
qed

text \<open>For two points or more the result is the start, the turns found, then the arrival.\<close>

lemma buildManeuvers_shape:
  assumes "2 \<le> length polyline"
  shows "\<exists>new. buildManeuvers polyline =
           \<lparr>mtype = MStart, atIndex = 0, mpoint = polyline ! 0,
             distanceFromStartMeters = 0, instruction = ''Start''\<rparr> # new @
           [\<lparr>mtype = MArrive, atIndex = length polyline - 1,
             mpoint = polyline ! (length polyline - 1),
             distanceFromStartMeters = polylineTotal polyline, instruction = ''Arrive''\<rparr>]
         \<and> (\<forall>m \<in> set new. mtype m \<in> {MLeft, MRight, MUturn}
               \<and> 1 \<le> atIndex m \<and> atIndex m < length polyline - 1
               \<and> 28 \<le> \<bar>turnDelta polyline (atIndex m)\<bar>)"
proof -
  let ?start = "\<lparr>mtype = MStart, atIndex = 0, mpoint = polyline ! 0,
             distanceFromStartMeters = 0, instruction = ''Start''\<rparr>"
  obtain new where n: "snd (fold (maneuverStep polyline) [1 ..< length polyline - 1] (0, [?start]))
       = snd (0::real, [?start]) @ new"
    "\<forall>m \<in> set new. mtype m \<in> {MLeft, MRight, MUturn}
        \<and> atIndex m \<in> set [1 ..< length polyline - 1]
        \<and> 28 \<le> \<bar>turnDelta polyline (atIndex m)\<bar>"
    using fold_maneuverStep_new[of polyline "[1 ..< length polyline - 1]" "(0, [?start])"]
    by blast
  have "buildManeuvers polyline = ?start # new @
           [\<lparr>mtype = MArrive, atIndex = length polyline - 1,
             mpoint = polyline ! (length polyline - 1),
             distanceFromStartMeters = polylineTotal polyline, instruction = ''Arrive''\<rparr>]"
    using assms n(1) by (simp add: buildManeuvers_def Let_def)
  moreover have "\<forall>m \<in> set new. mtype m \<in> {MLeft, MRight, MUturn}
               \<and> 1 \<le> atIndex m \<and> atIndex m < length polyline - 1
               \<and> 28 \<le> \<bar>turnDelta polyline (atIndex m)\<bar>"
    using n(2) by auto
  ultimately show ?thesis by blast
qed

text \<open>
  C5, as stated, fails: for a polyline of fewer than two points \<open>buildManeuvers\<close> returns
  the empty list, with no start and no arrive maneuver.
\<close>

theorem buildManeuvers_single_point_counterexample:
  "buildManeuvers [\<lparr>ptx = 3, pty = 4\<rparr>] = [] \<and> buildManeuvers [] = []"
  by (simp add: buildManeuvers_def)

text \<open>
  C5, amended: for every polyline of \<open>n \<ge> 2\<close> points, \<open>buildManeuvers\<close> emits exactly one
  start maneuver, first and at index 0, and exactly one arrive maneuver, last and at index
  \<open>n - 1\<close>, and every other maneuver it emits is at an interior index whose turn angle
  \<open>\<delta>\<close> has \<open>|\<delta>| \<ge> 28\<close> degrees.
\<close>

theorem buildManeuvers_start_arrive:
  assumes "2 \<le> length polyline"
  shows "buildManeuvers polyline \<noteq> []
     \<and> mtype (hd (buildManeuvers polyline)) = MStart
     \<and> atIndex (hd (buildManeuvers polyline)) = 0
     \<and> mtype (last (buildManeuvers polyline)) = MArrive
     \<and> atIndex (last (buildManeuvers polyline)) = length polyline - 1
     \<and> length (filter (\<lambda>m. mtype m = MStart) (buildManeuvers polyline)) = 1
     \<and> length (filter (\<lambda>m. mtype m = MArrive) (buildManeuvers polyline)) = 1
     \<and> (\<forall>m \<in> set (buildManeuvers polyline). mtype m \<noteq> MStart \<and> mtype m \<noteq> MArrive \<longrightarrow>
           1 \<le> atIndex m \<and> atIndex m < length polyline - 1
           \<and> 28 \<le> \<bar>turnDelta polyline (atIndex m)\<bar>)"
proof -
  obtain new where sh: "buildManeuvers polyline =
           \<lparr>mtype = MStart, atIndex = 0, mpoint = polyline ! 0,
             distanceFromStartMeters = 0, instruction = ''Start''\<rparr> # new @
           [\<lparr>mtype = MArrive, atIndex = length polyline - 1,
             mpoint = polyline ! (length polyline - 1),
             distanceFromStartMeters = polylineTotal polyline, instruction = ''Arrive''\<rparr>]"
    and nw: "\<forall>m \<in> set new. mtype m \<in> {MLeft, MRight, MUturn}
               \<and> 1 \<le> atIndex m \<and> atIndex m < length polyline - 1
               \<and> 28 \<le> \<bar>turnDelta polyline (atIndex m)\<bar>"
    using buildManeuvers_shape[OF assms] by blast
  have f1: "filter (\<lambda>m. mtype m = MStart) new = []"
    using nw by (auto simp: filter_empty_conv)
  have f2: "filter (\<lambda>m. mtype m = MArrive) new = []"
    using nw by (auto simp: filter_empty_conv)
  have a: "buildManeuvers polyline \<noteq> []" by (simp add: sh)
  have b: "mtype (hd (buildManeuvers polyline)) = MStart \<and> atIndex (hd (buildManeuvers polyline)) = 0"
    by (simp add: sh)
  have c: "mtype (last (buildManeuvers polyline)) = MArrive
       \<and> atIndex (last (buildManeuvers polyline)) = length polyline - 1"
    by (simp add: sh)
  have d: "length (filter (\<lambda>m. mtype m = MStart) (buildManeuvers polyline)) = 1"
    by (simp add: sh f1)
  have e: "length (filter (\<lambda>m. mtype m = MArrive) (buildManeuvers polyline)) = 1"
    by (simp add: sh f2)
  have f: "\<forall>m \<in> set (buildManeuvers polyline). mtype m \<noteq> MStart \<and> mtype m \<noteq> MArrive \<longrightarrow>
           1 \<le> atIndex m \<and> atIndex m < length polyline - 1
           \<and> 28 \<le> \<bar>turnDelta polyline (atIndex m)\<bar>"
    using nw by (auto simp: sh)
  show ?thesis using a b c d e f by blast
qed

lemma bearingDeg_up: "bearingDeg \<lparr>ptx = 0, pty = 0\<rparr> \<lparr>ptx = 0, pty = -10\<rparr> = 0"
  by (simp add: bearingDeg_def js_atan2_def js_rem_def js_trunc_def Let_def)

lemma bearingDeg_right: "bearingDeg \<lparr>ptx = 0, pty = -10\<rparr> \<lparr>ptx = 10, pty = -10\<rparr> = 90"
  by (simp add: bearingDeg_def js_atan2_def js_rem_def js_trunc_def Let_def)

lemma turnDelta_right_turn: "turnDelta [\<lparr>ptx = 0, pty = 0\<rparr>, \<lparr>ptx = 0, pty = -10\<rparr>, \<lparr>ptx = 10, pty = -10\<rparr>] (Suc 0) = 90"
  by (simp add: turnDelta_def Let_def bearingDeg_up bearingDeg_right angleDiff_def js_rem_def js_trunc_def)

lemma upt_small: "[1 ..< 2] = [1::nat]" "[0 ..< 3] = [0::nat, 1, 2]"
  by (simp_all add: upt_rec)

lemma buildManeuvers_right_turn: "buildManeuvers [\<lparr>ptx = 0, pty = 0\<rparr>, \<lparr>ptx = 0, pty = -10\<rparr>, \<lparr>ptx = 10, pty = -10\<rparr>]
   = [\<lparr>mtype = MStart, atIndex = 0, mpoint = \<lparr>ptx = 0, pty = 0\<rparr>,
        distanceFromStartMeters = 0, instruction = ''Start''\<rparr>,
      \<lparr>mtype = MRight, atIndex = 1, mpoint = \<lparr>ptx = 0, pty = -10\<rparr>,
        distanceFromStartMeters = 10, instruction = ''Turn right''\<rparr>,
      \<lparr>mtype = MArrive, atIndex = 2, mpoint = \<lparr>ptx = 10, pty = -10\<rparr>,
        distanceFromStartMeters = 20, instruction = ''Arrive''\<rparr>]"
  by (simp add: buildManeuvers_def Let_def upt_small maneuverStep_def turnDelta_right_turn classifyTurn_def
      polylineTotal_def dist2_def hypot_zero_left hypot_zero_right)

theorem buildManeuvers_start_arrive_witness:
  "2 \<le> length [\<lparr>ptx = 0, pty = 0\<rparr>, \<lparr>ptx = 0, pty = -10\<rparr>, \<lparr>ptx = 10, pty = -10\<rparr>]
   \<and> buildManeuvers [\<lparr>ptx = 0, pty = 0\<rparr>, \<lparr>ptx = 0, pty = -10\<rparr>, \<lparr>ptx = 10, pty = -10\<rparr>]
   = [\<lparr>mtype = MStart, atIndex = 0, mpoint = \<lparr>ptx = 0, pty = 0\<rparr>,
        distanceFromStartMeters = 0, instruction = ''Start''\<rparr>,
      \<lparr>mtype = MRight, atIndex = 1, mpoint = \<lparr>ptx = 0, pty = -10\<rparr>,
        distanceFromStartMeters = 10, instruction = ''Turn right''\<rparr>,
      \<lparr>mtype = MArrive, atIndex = 2, mpoint = \<lparr>ptx = 10, pty = -10\<rparr>,
        distanceFromStartMeters = 20, instruction = ''Arrive''\<rparr>]
   \<and> 28 \<le> \<bar>turnDelta [\<lparr>ptx = 0, pty = 0\<rparr>, \<lparr>ptx = 0, pty = -10\<rparr>, \<lparr>ptx = 10, pty = -10\<rparr>] 1\<bar>"
  using buildManeuvers_start_arrive[of "[\<lparr>ptx = 0, pty = 0\<rparr>, \<lparr>ptx = 0, pty = -10\<rparr>, \<lparr>ptx = 10, pty = -10\<rparr>]"]
  by (simp add: buildManeuvers_right_turn turnDelta_right_turn)

subsection \<open>Snapping to the graph\<close>

lemma bestOnEdgesLoop_Cons:
  "bestOnEdgesLoop nodeOf point prev sw (e # es) (best, s) =
     (case edgeProj nodeOf point e of
        None \<Rightarrow> bestOnEdgesLoop nodeOf point prev sw es (best, s)
      | Some proj \<Rightarrow>
          if best = None \<or> num_less (Fin (edgeScore prev sw e proj)) s
          then bestOnEdgesLoop nodeOf point prev sw es (Some (edgeSnap e proj), Fin (edgeScore prev sw e proj))
          else bestOnEdgesLoop nodeOf point prev sw es (best, s))"
  by (simp add: edgeProj_def edgeSnap_def edgeScore_def edgeRef_def Let_def split: option.splits)

text \<open>A state of the loop is good when the best score is the score of the best candidate.\<close>

lemma num_le_refl: "num_le s s" by (cases s) simp_all

lemma num_le_trans: "num_le a b \<Longrightarrow> num_le b c \<Longrightarrow> num_le a c"
  by (cases a; cases b; cases c) simp_all

lemma num_less_le: "num_less a b \<Longrightarrow> num_le a b"
  by (cases a; cases b) simp_all

lemma not_num_less: "\<not> num_less a b \<Longrightarrow> num_le b a"
  by (cases a; cases b) simp_all

lemma bestOnEdgesLoop_props:
  "bestOnEdgesLoop nodeOf point prev sw es (best0, s0) = (best, s) \<Longrightarrow>
     (best0 \<noteq> None \<longrightarrow> best \<noteq> None \<and> num_le s s0)
   \<and> ((best, s) = (best0, s0)
       \<or> (\<exists>e \<in> set es. \<exists>proj. edgeProj nodeOf point e = Some proj
             \<and> best = Some (edgeSnap e proj) \<and> s = Fin (edgeScore prev sw e proj)))
   \<and> (\<forall>e \<in> set es. \<forall>proj. edgeProj nodeOf point e = Some proj \<longrightarrow>
          best \<noteq> None \<and> num_le s (Fin (edgeScore prev sw e proj)))"
proof (induction es arbitrary: best0 s0)
  case Nil
  then show ?case by (simp add: num_le_refl)
next
  case (Cons e es)
  show ?case
  proof (cases "edgeProj nodeOf point e")
    case None
    then have "bestOnEdgesLoop nodeOf point prev sw es (best0, s0) = (best, s)"
      using Cons.prems by (simp add: bestOnEdgesLoop_Cons del: bestOnEdgesLoop.simps)
    from Cons.IH[OF this] None show ?thesis by auto
  next
    case (Some proj)
    show ?thesis
    proof (cases "best0 = None \<or> num_less (Fin (edgeScore prev sw e proj)) s0")
      case True
      then have run: "bestOnEdgesLoop nodeOf point prev sw es
           (Some (edgeSnap e proj), Fin (edgeScore prev sw e proj)) = (best, s)"
        using Cons.prems Some by (simp add: bestOnEdgesLoop_Cons del: bestOnEdgesLoop.simps)
      note ih = Cons.IH[OF run]
      have le: "num_le s (Fin (edgeScore prev sw e proj))" using ih by simp
      have a: "best0 \<noteq> None \<longrightarrow> best \<noteq> None \<and> num_le s s0"
        using ih True le num_le_trans num_less_le by blast
      have b: "(best, s) = (best0, s0)
       \<or> (\<exists>e' \<in> set (e # es). \<exists>proj. edgeProj nodeOf point e' = Some proj
             \<and> best = Some (edgeSnap e' proj) \<and> s = Fin (edgeScore prev sw e' proj))"
        using ih Some by auto
      have c: "\<forall>e' \<in> set (e # es). \<forall>proj. edgeProj nodeOf point e' = Some proj \<longrightarrow>
          best \<noteq> None \<and> num_le s (Fin (edgeScore prev sw e' proj))"
        using ih Some le by auto
      show ?thesis using a b c by blast
    next
      case False
      then have run: "bestOnEdgesLoop nodeOf point prev sw es (best0, s0) = (best, s)"
        using Cons.prems Some by (auto simp add: bestOnEdgesLoop_Cons simp del: bestOnEdgesLoop.simps)
      note ih = Cons.IH[OF run]
      have b0: "best0 \<noteq> None" using False by simp
      have le0: "num_le s0 (Fin (edgeScore prev sw e proj))"
        using False not_num_less by blast
      have le: "num_le s (Fin (edgeScore prev sw e proj))"
        using ih b0 le0 num_le_trans by blast
      have a: "best0 \<noteq> None \<longrightarrow> best \<noteq> None \<and> num_le s s0" using ih by blast
      have b: "(best, s) = (best0, s0)
       \<or> (\<exists>e' \<in> set (e # es). \<exists>proj. edgeProj nodeOf point e' = Some proj
             \<and> best = Some (edgeSnap e' proj) \<and> s = Fin (edgeScore prev sw e' proj))"
        using ih by auto
      have c: "\<forall>e' \<in> set (e # es). \<forall>proj. edgeProj nodeOf point e' = Some proj \<longrightarrow>
          best \<noteq> None \<and> num_le s (Fin (edgeScore prev sw e' proj))"
        using ih Some le b0 by auto
      show ?thesis using a b c by blast
    qed
  qed
qed

lemma bestOnEdges_Some:
  assumes "bestOnEdges nodeOf point prev sw es = Some b"
  shows "\<exists>e \<in> set es. \<exists>proj. edgeProj nodeOf point e = Some proj \<and> b = edgeSnap e proj
           \<and> (\<forall>e' \<in> set es. \<forall>proj'. edgeProj nodeOf point e' = Some proj' \<longrightarrow>
                 edgeScore prev sw e proj \<le> edgeScore prev sw e' proj')"
proof -
  obtain s where run: "bestOnEdgesLoop nodeOf point prev sw es (None, PosInf) = (Some b, s)"
    using assms by (cases "bestOnEdgesLoop nodeOf point prev sw es (None, PosInf)")
      (simp add: bestOnEdges_def)
  note p = bestOnEdgesLoop_props[OF run]
  from p obtain e proj where e: "e \<in> set es" "edgeProj nodeOf point e = Some proj"
      "b = edgeSnap e proj" "s = Fin (edgeScore prev sw e proj)"
    by auto
  have "\<forall>e' \<in> set es. \<forall>proj'. edgeProj nodeOf point e' = Some proj' \<longrightarrow>
                 edgeScore prev sw e proj \<le> edgeScore prev sw e' proj'"
    using p e(4) by auto
  then show ?thesis using e by blast
qed

lemma bestOnEdges_None:
  assumes "bestOnEdges nodeOf point prev sw es = None"
  shows "\<forall>e \<in> set es. edgeProj nodeOf point e = None"
proof -
  obtain s where run: "bestOnEdgesLoop nodeOf point prev sw es (None, PosInf) = (None, s)"
    using assms by (cases "bestOnEdgesLoop nodeOf point prev sw es (None, PosInf)")
      (simp add: bestOnEdges_def)
  note p = bestOnEdgesLoop_props[OF run]
  show ?thesis
  proof
    fix e assume "e \<in> set es"
    then show "edgeProj nodeOf point e = None" using p by (cases "edgeProj nodeOf point e") auto
  qed
qed

lemma hypot_mono: "a\<^sup>2 + b\<^sup>2 \<le> c\<^sup>2 + d\<^sup>2 \<Longrightarrow> hypot a b \<le> hypot c d"
  by (simp add: hypot_def)

lemma hypot_triangle: "hypot (a + c) (b + d) \<le> hypot a b + hypot c d"
  unfolding hypot_def by (rule real_sqrt_sum_squares_triangle_ineq)

text \<open>The clamped parameter is at least as good as either end of the segment.\<close>

lemma clamp_quadratic:
  fixes D c t :: real
  assumes D: "0 < D" and t: "t = clamp (c / D) 0 1"
  shows "D * t * t - 2 * t * c \<le> 0" and "D * t * t - 2 * t * c \<le> D - 2 * c"
proof -
  let ?u = "c / D"
  have c: "c = D * ?u" using D by simp
  consider "?u \<le> 0" | "0 < ?u" "?u < 1" | "1 \<le> ?u" by linarith
  then have "D * t * t - 2 * t * c \<le> 0 \<and> D * t * t - 2 * t * c \<le> D - 2 * c"
  proof cases
    case 1
    then have t0: "t = 0" using t by (simp add: clamp_def)
    have "c \<le> 0" using 1 D by (simp add: divide_le_0_iff)
    then show ?thesis using t0 D by simp
  next
    case 2
    then have tu: "t = ?u" using t by (simp add: clamp_def)
    have Dnz: "D \<noteq> 0" using D by simp
    have e1: "D * t * t - 2 * t * c = - (c * c / D)"
      using Dnz by (simp add: tu field_simps)
    have e2: "D - 2 * c + c * c / D = (D - c) * (D - c) / D"
      using Dnz by (simp add: field_simps)
    have "0 \<le> c * c / D" using D by simp
    moreover have "0 \<le> (D - c) * (D - c) / D" using D by simp
    ultimately show ?thesis using e1 e2 by linarith
  next
    case 3
    then have t1: "t = 1" using t by (simp add: clamp_def)
    have "D \<le> c" using 3 D by (simp add: le_divide_eq)
    then show ?thesis using t1 D by simp
  qed
  then show "D * t * t - 2 * t * c \<le> 0" and "D * t * t - 2 * t * c \<le> D - 2 * c" by simp_all
qed


lemma proj_expand:
  fixes px py ax ay bx "by" t :: real
  shows "(px - (ax + (bx - ax) * t))\<^sup>2 + (py - (ay + (by - ay) * t))\<^sup>2
       = ((px - ax)\<^sup>2 + (py - ay)\<^sup>2)
         + (((bx - ax) * (bx - ax) + (by - ay) * (by - ay)) * t * t
            - 2 * t * ((px - ax) * (bx - ax) + (py - ay) * (by - ay)))"
  by (simp add: power2_eq_square algebra_simps)

lemma to_expand:
  fixes px py ax ay bx "by" :: real
  shows "(px - bx)\<^sup>2 + (py - by)\<^sup>2
       = ((px - ax)\<^sup>2 + (py - ay)\<^sup>2)
         + (((bx - ax) * (bx - ax) + (by - ay) * (by - ay))
            - 2 * ((px - ax) * (bx - ax) + (py - ay) * (by - ay)))"
  by (simp add: power2_eq_square algebra_simps)

lemma proj_distance_le_from:
  "proj_distance (projectPointToSegment p a b) \<le> dist2 p a"
proof (cases "(ptx b - ptx a) * (ptx b - ptx a) + (pty b - pty a) * (pty b - pty a) \<le> 1/10^9")
  case True
  then show ?thesis by (simp add: projectPointToSegment_def Let_def dist2_def)
next
  case False
  let ?D = "(ptx b - ptx a) * (ptx b - ptx a) + (pty b - pty a) * (pty b - pty a)"
  let ?c = "(ptx p - ptx a) * (ptx b - ptx a) + (pty p - pty a) * (pty b - pty a)"
  let ?t = "clamp (?c / ?D) 0 1"
  have D: "0 < ?D" using False by simp
  have q: "?D * ?t * ?t - 2 * ?t * ?c \<le> 0"
    using clamp_quadratic(1)[OF D refl] .
  have "(ptx p - (ptx a + (ptx b - ptx a) * ?t))\<^sup>2 + (pty p - (pty a + (pty b - pty a) * ?t))\<^sup>2
        \<le> (ptx p - ptx a)\<^sup>2 + (pty p - pty a)\<^sup>2"
    unfolding proj_expand using q by linarith
  then have "hypot (ptx p - (ptx a + (ptx b - ptx a) * ?t)) (pty p - (pty a + (pty b - pty a) * ?t))
        \<le> hypot (ptx p - ptx a) (pty p - pty a)"
    by (rule hypot_mono)
  then show ?thesis using False by (simp add: projectPointToSegment_def Let_def dist2_def)
qed

lemma proj_distance_le_to:
  assumes "1/10^9 < (ptx b - ptx a) * (ptx b - ptx a) + (pty b - pty a) * (pty b - pty a)"
  shows "proj_distance (projectPointToSegment p a b) \<le> dist2 p b"
proof -
  let ?D = "(ptx b - ptx a) * (ptx b - ptx a) + (pty b - pty a) * (pty b - pty a)"
  let ?c = "(ptx p - ptx a) * (ptx b - ptx a) + (pty p - pty a) * (pty b - pty a)"
  let ?t = "clamp (?c / ?D) 0 1"
  have D: "0 < ?D" using assms by simp
  have q: "?D * ?t * ?t - 2 * ?t * ?c \<le> ?D - 2 * ?c"
    using clamp_quadratic(2)[OF D refl] .
  have "(ptx p - (ptx a + (ptx b - ptx a) * ?t))\<^sup>2 + (pty p - (pty a + (pty b - pty a) * ?t))\<^sup>2
        \<le> (ptx p - ptx b)\<^sup>2 + (pty p - pty b)\<^sup>2"
    unfolding proj_expand to_expand[of "ptx p" "ptx b" "pty p" "pty b" "ptx a" "pty a"]
    using q by linarith
  then have "hypot (ptx p - (ptx a + (ptx b - ptx a) * ?t)) (pty p - (pty a + (pty b - pty a) * ?t))
        \<le> hypot (ptx p - ptx b) (pty p - pty b)"
    by (rule hypot_mono)
  then show ?thesis using assms by (simp add: projectPointToSegment_def Let_def dist2_def)
qed

lemma proj_distance_le_to_slack:
  "proj_distance (projectPointToSegment p a b) \<le> dist2 p b + 32/10^6"
proof (cases "1/10^9 < (ptx b - ptx a) * (ptx b - ptx a) + (pty b - pty a) * (pty b - pty a)")
  case True
  from proj_distance_le_to[OF this, of p] show ?thesis by simp
next
  case False
  have short: "(ptx b - ptx a)\<^sup>2 + (pty b - pty a)\<^sup>2 \<le> (32/10^6)\<^sup>2"
    using False by (simp add: power2_eq_square)
  have "hypot (ptx b - ptx a) (pty b - pty a) \<le> sqrt ((32/10^6)\<^sup>2)"
    unfolding hypot_def using short by (rule real_sqrt_le_mono)
  then have len: "hypot (ptx b - ptx a) (pty b - pty a) \<le> 32/10^6"
    by simp
  have "dist2 p a = hypot ((ptx p - ptx b) + (ptx b - ptx a)) ((pty p - pty b) + (pty b - pty a))"
    by (simp add: dist2_def)
  also have "\<dots> \<le> hypot (ptx p - ptx b) (pty p - pty b) + hypot (ptx b - ptx a) (pty b - pty a)"
    by (rule hypot_triangle)
  finally have "dist2 p a \<le> dist2 p b + 32/10^6"
    using len by (simp add: dist2_def)
  then show ?thesis using proj_distance_le_from[of p a b] by linarith
qed

lemma nodes_corridors:
  "nodeById corridors ''a1'' = Some (mkNode ''a1'' 0 0)"
  "nodeById corridors ''b1'' = Some (mkNode ''b1'' 10 0)"
  "nodeById corridors ''a2'' = Some (mkNode ''a2'' 0 (2/5))"
  "nodeById corridors ''b2'' = Some (mkNode ''b2'' 10 (2/5))"
  by (simp_all add: nodeById_def corridors_def mkNode_def)

lemma usable_corridors: "usableEdges corridors = [mkEdge ''a1'' ''b1'', mkEdge ''a2'' ''b2'']"
  by (simp add: usableEdges_def corridors_def mkEdge_def isUsableEdge_def)



lemma proj_ce_e1:
  "projectPointToSegment \<lparr>ptx = 0, pty = 3/10\<rparr> \<lparr>ptx = 0, pty = 0\<rparr> \<lparr>ptx = 10, pty = 0\<rparr>
   = \<lparr>proj_t = 0, proj_point = \<lparr>ptx = 0, pty = 0\<rparr>, proj_distance = 3/10\<rparr>"
  by (simp add: projectPointToSegment_def Let_def clamp_def hypot_zero_left)

lemma proj_ce_e2:
  "projectPointToSegment \<lparr>ptx = 0, pty = 3/10\<rparr> \<lparr>ptx = 0, pty = 2/5\<rparr> \<lparr>ptx = 10, pty = 2/5\<rparr>
   = \<lparr>proj_t = 0, proj_point = \<lparr>ptx = 0, pty = 2/5\<rparr>, proj_distance = 1/10\<rparr>"
  by (simp add: projectPointToSegment_def Let_def clamp_def hypot_zero_left)

lemma snap_sticky:
  "snapToGraph corridors \<lparr>ptx = 0, pty = 3/10\<rparr>
     \<lparr>maxSnapMeters = None, previousEdge = Some \<lparr>ref_from = ''a1'', ref_to = ''b1''\<rparr>,
      switchPenaltyMeters = None, hardClamp = None\<rparr>
   = \<lparr>snapped = \<lparr>ptx = 0, pty = 0\<rparr>, distance = Fin (3/10),
       edge = Some \<lparr>ref_from = ''a1'', ref_to = ''b1''\<rparr>, snap_t = 0\<rparr>"
  by (simp add: snapToGraph_def Let_def usable_corridors bestOnEdges_def nodes_corridors
      mkEdge_def mkNode_def proj_ce_e1 proj_ce_e2 penalty_def isPrev_def isConnectedToPrev_def)

lemma snap_oneway:
  "snapToGraph oneWayMap \<lparr>ptx = 5, pty = 0\<rparr> noOpts
   = \<lparr>snapped = \<lparr>ptx = 5, pty = 0\<rparr>, distance = PosInf, edge = None, snap_t = 0\<rparr>"
  by (simp add: snapToGraph_def Let_def usableEdges_def oneWayMap_def isUsableEdge_def noOpts_def
      bestOnEdges_def)

lemma snap_short:
  "snapToGraph shortEdgeMap \<lparr>ptx = 3/100000, pty = 0\<rparr> noOpts
   = \<lparr>snapped = \<lparr>ptx = 0, pty = 0\<rparr>, distance = Fin (3/100000),
       edge = Some \<lparr>ref_from = ''a1'', ref_to = ''b1''\<rparr>, snap_t = 0\<rparr>"
  by (simp add: snapToGraph_def Let_def usableEdges_def shortEdgeMap_def isUsableEdge_def noOpts_def
      bestOnEdges_def nodeById_def mkEdge_def mkNode_def projectPointToSegment_def
      hypot_zero_right penalty_def isPrev_def isConnectedToPrev_def)

text \<open>
  C1, as stated, fails. With the previous edge set, the corridor penalty keeps the snap on
  the previous edge at 0.3 m while an endpoint of the other corridor is 0.1 m away; a map
  whose only edge is one-way with no distance has no usable edge, and the result distance
  is infinite; and an edge shorter than \<open>sqrt(10^-9)\<close> is projected to its \<open>from\<close> end,
  0.03 mm from a query point that sits on its \<open>to\<close> end.
\<close>

theorem snapToGraph_endpoint_counterexample:
  "distance (snapToGraph corridors \<lparr>ptx = 0, pty = 3/10\<rparr>
     \<lparr>maxSnapMeters = None, previousEdge = Some \<lparr>ref_from = ''a1'', ref_to = ''b1''\<rparr>,
      switchPenaltyMeters = None, hardClamp = None\<rparr>) = Fin (3/10)
   \<and> nodeById corridors ''a2'' = Some (mkNode ''a2'' 0 (2/5))
   \<and> dist2 \<lparr>ptx = 0, pty = 3/10\<rparr> \<lparr>ptx = 0, pty = 2/5\<rparr> + 1/10^6 < 3/10
   \<and> distance (snapToGraph oneWayMap \<lparr>ptx = 5, pty = 0\<rparr> noOpts) = PosInf
   \<and> distance (snapToGraph shortEdgeMap \<lparr>ptx = 3/100000, pty = 0\<rparr> noOpts) = Fin (3/100000)
   \<and> dist2 \<lparr>ptx = 3/100000, pty = 0\<rparr> \<lparr>ptx = 3/100000, pty = 0\<rparr> + 1/10^6 < 3/100000"
  by (simp add: snap_sticky snap_oneway snap_short nodes_corridors dist2_def hypot_zero_left)

lemma penalty_no_prev: "penalty None sw r = sw"
  by (simp add: penalty_def isPrev_def isConnectedToPrev_def)

lemma snapToGraph_distance_no_prev:
  assumes "previousEdge opts = None"
  shows "distance (snapToGraph m point opts) =
     (case bestOnEdges (nodeById m) point None
             (case switchPenaltyMeters opts of None \<Rightarrow> 35/100 | Some v \<Rightarrow> v) (usableEdges m) of
        None \<Rightarrow> PosInf | Some b \<Rightarrow> distance b)"
  using assms by (simp add: snapToGraph_def Let_def split: option.splits)

lemma snapToGraph_le_projection:
  assumes prev: "previousEdge opts = None"
    and e: "e \<in> set (usableEdges m)"
    and pr: "edgeProj (nodeById m) point e = Some proj"
  shows "num_le (distance (snapToGraph m point opts)) (Fin (proj_distance proj))"
proof -
  let ?sw = "case switchPenaltyMeters opts of None \<Rightarrow> 35/100 | Some v \<Rightarrow> v"
  let ?best = "bestOnEdges (nodeById m) point None ?sw (usableEdges m)"
  have "?best \<noteq> None"
  proof
    assume "?best = None"
    from bestOnEdges_None[OF this] e pr show False by auto
  qed
  then obtain b where b: "?best = Some b" by auto
  from bestOnEdges_Some[OF b] obtain e0 proj0 where
    e0: "b = edgeSnap e0 proj0"
    and mn: "\<forall>e' \<in> set (usableEdges m). \<forall>proj'. edgeProj (nodeById m) point e' = Some proj' \<longrightarrow>
                 edgeScore None ?sw e0 proj0 \<le> edgeScore None ?sw e' proj'"
    by blast
  have "edgeScore None ?sw e0 proj0 \<le> edgeScore None ?sw e proj"
    using mn e pr by blast
  then have "proj_distance proj0 \<le> proj_distance proj"
    by (simp add: edgeScore_def penalty_no_prev)
  then show ?thesis
    by (simp add: snapToGraph_distance_no_prev[OF prev] b e0 edgeSnap_def)
qed

text \<open>
  C1, amended: when no previous edge is given (any \<open>maxSnapMeters\<close>, any
  \<open>switchPenaltyMeters\<close>, \<open>hardClamp\<close> on or off), for every usable edge of the map whose
  two ends are nodes of the map, the result distance is at most the distance from the query
  point to the \<open>from\<close> end plus \<open>10^-6\<close>; at most the distance to the \<open>to\<close> end plus
  \<open>10^-6\<close> when the squared length of the edge exceeds \<open>10^-9\<close>; and at most the
  distance to the \<open>to\<close> end plus \<open>3.2 * 10^-5\<close> in every case.
\<close>

theorem snapToGraph_endpoint_bound:
  assumes prev: "previousEdge opts = None"
    and e: "e \<in> set (usableEdges m)"
    and a: "nodeById m (edge_from e) = Some a"
    and b: "nodeById m (edge_to e) = Some b"
  shows "num_le (distance (snapToGraph m point opts))
           (Fin (dist2 point \<lparr>ptx = node_x a, pty = node_y a\<rparr> + 1/10^6))
     \<and> (1/10^9 < (node_x b - node_x a) * (node_x b - node_x a)
                   + (node_y b - node_y a) * (node_y b - node_y a) \<longrightarrow>
          num_le (distance (snapToGraph m point opts))
            (Fin (dist2 point \<lparr>ptx = node_x b, pty = node_y b\<rparr> + 1/10^6)))
     \<and> num_le (distance (snapToGraph m point opts))
          (Fin (dist2 point \<lparr>ptx = node_x b, pty = node_y b\<rparr> + 32/10^6))"
proof -
  let ?A = "\<lparr>ptx = node_x a, pty = node_y a\<rparr>"
  let ?B = "\<lparr>ptx = node_x b, pty = node_y b\<rparr>"
  let ?proj = "projectPointToSegment point ?A ?B"
  have pr: "edgeProj (nodeById m) point e = Some ?proj"
    by (simp add: edgeProj_def a b)
  note le = snapToGraph_le_projection[OF prev e pr]
  have 1: "num_le (Fin (proj_distance ?proj)) (Fin (dist2 point ?A + 1/10^6))"
    using proj_distance_le_from[of point ?A ?B] by simp
  have 2: "num_le (Fin (proj_distance ?proj)) (Fin (dist2 point ?B + 1/10^6))"
    if "1/10^9 < (node_x b - node_x a) * (node_x b - node_x a)
                   + (node_y b - node_y a) * (node_y b - node_y a)"
    using proj_distance_le_to[where a = ?A and b = ?B and p = point] that by simp
  have 3: "num_le (Fin (proj_distance ?proj)) (Fin (dist2 point ?B + 32/10^6))"
    using proj_distance_le_to_slack[of point ?A ?B] by simp
  show ?thesis using le 1 2 3 num_le_trans by blast
qed


theorem snapToGraph_endpoint_bound_witness:
  "previousEdge noOpts = None
   \<and> mkEdge ''a2'' ''b2'' \<in> set (usableEdges corridors)
   \<and> nodeById corridors ''a2'' = Some (mkNode ''a2'' 0 (2/5))
   \<and> nodeById corridors ''b2'' = Some (mkNode ''b2'' 10 (2/5))
   \<and> (1/10^9 :: real) < (10 - 0) * (10 - 0) + (2/5 - 2/5) * (2/5 - 2/5)
   \<and> num_le (distance (snapToGraph corridors \<lparr>ptx = 5, pty = 4\<rparr> noOpts))
        (Fin (dist2 \<lparr>ptx = 5, pty = 4\<rparr> \<lparr>ptx = 0, pty = 2/5\<rparr> + 1/10^6))
   \<and> num_le (distance (snapToGraph corridors \<lparr>ptx = 5, pty = 4\<rparr> noOpts))
        (Fin (dist2 \<lparr>ptx = 5, pty = 4\<rparr> \<lparr>ptx = 10, pty = 2/5\<rparr> + 1/10^6))"
proof -
  have h1: "previousEdge noOpts = None" by (simp add: noOpts_def)
  have h2: "mkEdge ''a2'' ''b2'' \<in> set (usableEdges corridors)"
    by (simp add: usable_corridors)
  have h3: "nodeById corridors (edge_from (mkEdge ''a2'' ''b2'')) = Some (mkNode ''a2'' 0 (2/5))"
    by (simp add: mkEdge_def nodes_corridors)
  have h4: "nodeById corridors (edge_to (mkEdge ''a2'' ''b2'')) = Some (mkNode ''b2'' 10 (2/5))"
    by (simp add: mkEdge_def nodes_corridors)
  show ?thesis
    using h1 h2 snapToGraph_endpoint_bound[OF h1 h2 h3 h4, of "\<lparr>ptx = 5, pty = 4\<rparr>"]
    by (simp add: nodes_corridors mkNode_def)
qed








subsection \<open>The Wi-Fi fix\<close>

lemma exp_sq_upper:
  fixes x u v :: real
  assumes "exp x \<le> u" "u * u \<le> v"
  shows "exp (2 * x) \<le> v"
proof -
  have u0: "0 \<le> u" using assms(1) exp_gt_zero[of x] by linarith
  have "exp (2 * x) = exp x * exp x" by (simp add: exp_double power2_eq_square)
  also have "\<dots> \<le> u * u" using assms(1) u0 by (intro mult_mono) simp_all
  finally show ?thesis using assms(2) by simp
qed

lemma exp_sq_lower:
  fixes x l v :: real
  assumes "l \<le> exp x" "0 \<le> l" "v \<le> l * l"
  shows "v \<le> exp (2 * x)"
proof -
  have "l * l \<le> exp x * exp x" using assms(1,2) by (intro mult_mono) simp_all
  also have "\<dots> = exp (2 * x)" by (simp add: exp_double power2_eq_square)
  finally show ?thesis using assms(3) by simp
qed

lemma exp_2_upper: "exp (2::real) \<le> 74179109/10000000"
proof -
  have a0: "exp (1/256 :: real) \<le> 65793/65536"
    using exp_bound[of "1/256"] by (simp add: power2_eq_square)
  have a1: "exp (1/128 :: real) \<le> 1259823/1250000"
    using exp_sq_upper[OF a0, of "1259823/1250000"] by simp
  have a2: "exp (1/64 :: real) \<le> 5078893/5000000"
    using exp_sq_upper[OF a1, of "5078893/5000000"] by simp
  have a3: "exp (1/32 :: real) \<le> 5159031/5000000"
    using exp_sq_upper[OF a2, of "5159031/5000000"] by simp
  have a4: "exp (1/16 :: real) \<le> 10646241/10000000"
    using exp_sq_upper[OF a3, of "10646241/10000000"] by simp
  have a5: "exp (1/8 :: real) \<le> 2266849/2000000"
    using exp_sq_upper[OF a4, of "2266849/2000000"] by simp
  have a6: "exp (1/4 :: real) \<le> 12846511/10000000"
    using exp_sq_upper[OF a5, of "12846511/10000000"] by simp
  have a7: "exp (1/2 :: real) \<le> 3300657/2000000"
    using exp_sq_upper[OF a6, of "3300657/2000000"] by simp
  have a8: "exp (1 :: real) \<le> 13617921/5000000"
    using exp_sq_upper[OF a7, of "13617921/5000000"] by simp
  show ?thesis
    using exp_sq_upper[OF a8, of "74179109/10000000"] by simp
qed

lemma exp_2_lower: "73798693/10000000 \<le> exp (2::real)"
proof -
  have a0: "545/512 \<le> exp (1/16 :: real)"
    using exp_lower_Taylor_quadratic[of "1/16 :: real"] by (simp add: power2_eq_square)
  have a1: "2832651/2500000 \<le> exp (1/8 :: real)"
    using exp_sq_lower[OF a0, of "2832651/2500000"] by simp
  have a2: "6419129/5000000 \<le> exp (1/4 :: real)"
    using exp_sq_lower[OF a1, of "6419129/5000000"] by simp
  have a3: "8241043/5000000 \<le> exp (1/2 :: real)"
    using exp_sq_lower[OF a2, of "8241043/5000000"] by simp
  have a4: "5433183/2000000 \<le> exp (1 :: real)"
    using exp_sq_lower[OF a3, of "5433183/2000000"] by simp
  show ?thesis
    using exp_sq_lower[OF a4, of "73798693/10000000"] by simp
qed

lemma exp_4_eq: "exp (4::real) = exp 2 * exp 2"
  using exp_double[of "2::real"] by (simp add: power2_eq_square)

lemma wifiWeight_60: "wifiWeight (- 60) = exp 4"
proof -
  have "1 \<le> exp (4::real)" by simp
  moreover have "exp (4::real) \<le> 400"
  proof -
    have "exp (2::real) * exp 2 \<le> 8 * 8"
      using exp_2_upper by (intro mult_mono) simp_all
    then show ?thesis by (simp add: exp_4_eq)
  qed
  ultimately show ?thesis by (simp add: wifiWeight_def clamp_def)
qed

lemma wifiWeight_80: "wifiWeight (- 80) = exp 2"
proof -
  have "1 \<le> exp (2::real)" by simp
  moreover have "exp (2::real) \<le> 400" using exp_2_upper by simp
  ultimately show ?thesis by (simp add: wifiWeight_def clamp_def)
qed

lemma s3_ratio: "\<bar>10 * exp 2 / (exp 4 + exp (2::real)) - 119/100\<bar> < 5/1000"
proof -
  have pos: "0 < exp (2::real)" by simp
  have nz: "exp (2::real) + 1 \<noteq> 0" "exp (2::real) \<noteq> 0" using pos by linarith+
  have "exp 4 + exp (2::real) = exp 2 * (exp 2 + 1)"
    by (simp add: exp_4_eq algebra_simps)
  then have eq: "10 * exp 2 / (exp 4 + exp (2::real)) = 10 / (exp 2 + 1)"
    using nz by (simp add: mult.commute)
  have p1: "0 < exp (2::real) + 1" using pos by linarith
  have "1185/1000 * (exp (2::real) + 1) < 10" using exp_2_upper by (simp add: algebra_simps)
  then have lo: "10 / (exp (2::real) + 1) > 1185/1000"
    using p1 by (simp only: pos_less_divide_eq)
  have "10 < 1195/1000 * (exp (2::real) + 1)" using exp_2_lower by (simp add: algebra_simps)
  then have hi: "10 / (exp (2::real) + 1) < 1195/1000"
    using p1 by (simp only: pos_divide_less_eq)
  define q where "q = 10 / (exp (2::real) + 1)"
  have "\<bar>q - 119/100\<bar> < 5/1000"
    using lo hi unfolding q_def[symmetric] by linarith
  then show ?thesis unfolding eq q_def .
qed

lemma wifiWeight_ge_1: "1 \<le> wifiWeight l"
  by (simp add: wifiWeight_def clamp_def)

lemma byBssid_Some_iff:
  "byBssid ancs k \<noteq> None \<longleftrightarrow> (\<exists>a \<in> set ancs. normalizeBssid (anchor_bssid a) = k)"
proof -
  have "byBssid ancs k \<noteq> None \<longleftrightarrow> k \<in> dom (byBssid ancs)" by auto
  also have "\<dots> \<longleftrightarrow> k \<in> fst ` set (rev (map (\<lambda>a. (normalizeBssid (anchor_bssid a), a)) ancs))"
    unfolding byBssid_def by (simp only: dom_map_of_conv_image_fst)
  also have "\<dots> \<longleftrightarrow> (\<exists>a \<in> set ancs. normalizeBssid (anchor_bssid a) = k)"
    by force
  finally show ?thesis .
qed

lemma byBssid_Some_anchor:
  assumes "byBssid ancs k = Some a"
  shows "a \<in> set ancs \<and> normalizeBssid (anchor_bssid a) = k"
proof -
  have "(k, a) \<in> set (rev (map (\<lambda>a. (normalizeBssid (anchor_bssid a), a)) ancs))"
    using assms unfolding byBssid_def by (rule map_of_SomeD)
  then show ?thesis by auto
qed

lemma matchedReadings_set:
  "r \<in> set (matchedReadings readings ancs) \<Longrightarrow> byBssid ancs (bssid r) \<noteq> None"
  by (simp add: matchedReadings_def)

lemma matchedReadings_empty_iff:
  "matchedReadings readings ancs = [] \<longleftrightarrow>
     \<not> (\<exists>r \<in> set readings. bssid r \<noteq> [] \<and>
           (\<exists>a \<in> set ancs. normalizeBssid (bssid r) = normalizeBssid (anchor_bssid a)))"
proof -
  have "matchedReadings readings ancs = [] \<longleftrightarrow>
        (\<forall>r \<in> set readings. bssid r \<noteq> [] \<longrightarrow> byBssid ancs (normalizeBssid (bssid r)) = None)"
    by (auto simp: matchedReadings_def filter_empty_conv)
  also have "\<dots> \<longleftrightarrow> \<not> (\<exists>r \<in> set readings. bssid r \<noteq> [] \<and>
           (\<exists>a \<in> set ancs. normalizeBssid (bssid r) = normalizeBssid (anchor_bssid a)))"
    using byBssid_Some_iff[of ancs] by (metis (no_types, lifting))
  finally show ?thesis .
qed

lemma matchedReadings_length:
  "length (matchedReadings readings ancs) =
     length (filter (\<lambda>r. bssid r \<noteq> [] \<and>
           (\<exists>a \<in> set ancs. normalizeBssid (bssid r) = normalizeBssid (anchor_bssid a))) readings)"
proof -
  have eq1: "matchedReadings readings ancs =
      map (\<lambda>r. r\<lparr>bssid := normalizeBssid (bssid r)\<rparr>)
        (filter (\<lambda>r. bssid r \<noteq> [] \<and> byBssid ancs (normalizeBssid (bssid r)) \<noteq> None) readings)"
    by (simp add: matchedReadings_def filter_map comp_def conj_commute)
  have eq2: "(\<lambda>r. bssid r \<noteq> [] \<and> byBssid ancs (normalizeBssid (bssid r)) \<noteq> None)
      = (\<lambda>r. bssid r \<noteq> [] \<and>
           (\<exists>a \<in> set ancs. normalizeBssid (bssid r) = normalizeBssid (anchor_bssid a)))"
    using byBssid_Some_iff[of ancs] by (metis (no_types, lifting))
  show ?thesis unfolding eq1 length_map eq2 ..
qed

lemma fold_centroidStep:
  assumes "\<forall>r \<in> set ms. byBssid ancs (bssid r) \<noteq> None"
  shows "fold (centroidStep (byBssid ancs)) ms (s, x, y) =
     (s + (\<Sum>r\<leftarrow>ms. wifiWeight (level r)),
      x + (\<Sum>r\<leftarrow>ms. weightedX ancs r),
      y + (\<Sum>r\<leftarrow>ms. weightedY ancs r))"
  using assms
proof (induction ms arbitrary: s x y)
  case Nil
  then show ?case by simp
next
  case (Cons r ms)
  obtain a where a: "byBssid ancs (bssid r) = Some a" using Cons.prems by auto
  have step: "centroidStep (byBssid ancs) r (s, x, y)
      = (s + wifiWeight (level r), x + weightedX ancs r, y + weightedY ancs r)"
    by (simp add: centroidStep_def a weightedX_def weightedY_def Let_def)
  show ?case using Cons.IH[of "s + wifiWeight (level r)" "x + weightedX ancs r" "y + weightedY ancs r"]
      Cons.prems
    by (simp add: step add.assoc)
qed

lemma sum_weights_pos:
  "ms \<noteq> [] \<Longrightarrow> 0 < (\<Sum>r\<leftarrow>ms. wifiWeight (level r))"
proof (induction ms)
  case Nil
  then show ?case by simp
next
  case (Cons r ms)
  have "0 \<le> (\<Sum>r\<leftarrow>ms. wifiWeight (level r))"
    by (rule sum_list_nonneg) (use wifiWeight_ge_1 in \<open>auto intro: order_trans[of 0 1]\<close>)
  then show ?case using wifiWeight_ge_1[of "level r"] by simp
qed

lemma foldl_best:
  "foldl (\<lambda>acc r. if level r > level acc then r else acc) acc ms \<in> insert acc (set ms)
   \<and> level acc \<le> level (foldl (\<lambda>acc r. if level r > level acc then r else acc) acc ms)
   \<and> (\<forall>r \<in> set ms. level r \<le> level (foldl (\<lambda>acc r. if level r > level acc then r else acc) acc ms))"
proof (induction ms arbitrary: acc)
  case Nil
  then show ?case by simp
next
  case (Cons r ms)
  let ?f = "\<lambda>acc r. if level r > level acc then r else acc"
  note ih = Cons.IH[of "?f acc r"]
  have le: "level acc \<le> level (?f acc r)" "level r \<le> level (?f acc r)" by auto
  have 1: "foldl ?f acc (r # ms) \<in> insert acc (set (r # ms))"
    using ih by (auto split: if_splits)
  have 2: "level acc \<le> level (foldl ?f acc (r # ms))"
    using ih le by (auto simp del: foldl_Cons simp add: foldl_Cons[of ?f acc r ms])
  have 3: "\<forall>r' \<in> set (r # ms). level r' \<le> level (foldl ?f acc (r # ms))"
    using ih le by (auto simp del: foldl_Cons simp add: foldl_Cons[of ?f acc r ms])
  show ?case using 1 2 3 by blast
qed

lemma computeWifiFix_eq:
  "computeWifiFix readings ancs =
     (let ms = matchedReadings readings ancs;
          W = (\<Sum>r\<leftarrow>ms. wifiWeight (level r))
      in if ms = [] then None
         else Some \<lparr>fix_x = (\<Sum>r\<leftarrow>ms. weightedX ancs r) / W,
                    fix_y = (\<Sum>r\<leftarrow>ms. weightedY ancs r) / W,
                    fix_matched = length ms,
                    fix_best = Some (foldl (\<lambda>acc r. if level r > level acc then r else acc) (hd ms) ms)\<rparr>)"
proof (cases "matchedReadings readings ancs = []")
  case True
  then show ?thesis by (simp add: computeWifiFix_def)
next
  case False
  have all: "\<forall>r \<in> set (matchedReadings readings ancs). byBssid ancs (bssid r) \<noteq> None"
    using matchedReadings_set by blast
  have pos: "0 < (\<Sum>r\<leftarrow>matchedReadings readings ancs. wifiWeight (level r))"
    using sum_weights_pos[OF False] .
  show ?thesis
    using False pos by (simp add: computeWifiFix_def Let_def fold_centroidStep[OF all])
qed

text \<open>
  C9, as stated, fails: a reading with an empty BSSID is dropped before it is normalised, so
  with an anchor whose BSSID is blank the normalised BSSIDs are equal and the result is
  still \<open>None\<close>.
\<close>

theorem computeWifiFix_empty_bssid_counterexample: "computeWifiFix [\<lparr>bssid = '''', level = - 50\<rparr>] [mkAnchor '' '' 3 4] = None
   \<and> normalizeBssid (bssid \<lparr>bssid = '''', level = - 50\<rparr>) = normalizeBssid (anchor_bssid (mkAnchor '' '' 3 4))"
proof -
  have n: "normalizeBssid '''' = ''''" "normalizeBssid '' '' = ''''" by code_simp+
  show ?thesis by (simp add: computeWifiFix_def matchedReadings_def mkAnchor_def n)
qed

text \<open>
  C9, amended: \<open>computeWifiFix\<close> returns \<open>None\<close> exactly when no reading with a non-empty
  BSSID has a trimmed, lower-cased BSSID equal to a trimmed, lower-cased anchor BSSID.
  Otherwise the sum of the weights \<open>w = clamp(exp((clamp(rssi, -95, -35) + 100) / 10), 1, 400)\<close>
  of the matched readings is positive, the fix is the centroid of their anchors with these
  weights, \<open>matched\<close> is the number of matching readings and \<open>best\<close> is a matched
  reading of maximum rssi. The function is total: it never throws. The witness is scenario
  S3, where \<open>x = 10 e^2 / (e^4 + e^2)\<close>, within 0.005 of 1.19.
\<close>

theorem computeWifiFix_spec:
  "(computeWifiFix readings ancs = None \<longleftrightarrow>
      \<not> (\<exists>r \<in> set readings. bssid r \<noteq> [] \<and>
            (\<exists>a \<in> set ancs. normalizeBssid (bssid r) = normalizeBssid (anchor_bssid a))))
   \<and> (\<forall>wf. computeWifiFix readings ancs = Some wf \<longrightarrow>
         0 < (\<Sum>r\<leftarrow>matchedReadings readings ancs. wifiWeight (level r))
         \<and> fix_x wf = (\<Sum>r\<leftarrow>matchedReadings readings ancs. weightedX ancs r)
                         / (\<Sum>r\<leftarrow>matchedReadings readings ancs. wifiWeight (level r))
         \<and> fix_y wf = (\<Sum>r\<leftarrow>matchedReadings readings ancs. weightedY ancs r)
                         / (\<Sum>r\<leftarrow>matchedReadings readings ancs. wifiWeight (level r))
         \<and> (\<forall>r \<in> set (matchedReadings readings ancs).
               \<exists>a \<in> set ancs. byBssid ancs (bssid r) = Some a
                  \<and> normalizeBssid (anchor_bssid a) = bssid r)
         \<and> fix_matched wf = length (filter (\<lambda>r. bssid r \<noteq> [] \<and>
               (\<exists>a \<in> set ancs. normalizeBssid (bssid r) = normalizeBssid (anchor_bssid a))) readings)
         \<and> (\<exists>b \<in> set (matchedReadings readings ancs). fix_best wf = Some b
               \<and> (\<forall>r \<in> set (matchedReadings readings ancs). level r \<le> level b)))"
proof -
  let ?ms = "matchedReadings readings ancs"
  let ?f = "\<lambda>acc r. if level r > level acc then r else acc"
  have none: "computeWifiFix readings ancs = None \<longleftrightarrow>
      \<not> (\<exists>r \<in> set readings. bssid r \<noteq> [] \<and>
            (\<exists>a \<in> set ancs. normalizeBssid (bssid r) = normalizeBssid (anchor_bssid a)))"
    using matchedReadings_empty_iff[of readings ancs]
    by (simp add: computeWifiFix_eq Let_def)
  have some: "0 < (\<Sum>r\<leftarrow>?ms. wifiWeight (level r))
         \<and> fix_x wf = (\<Sum>r\<leftarrow>?ms. weightedX ancs r) / (\<Sum>r\<leftarrow>?ms. wifiWeight (level r))
         \<and> fix_y wf = (\<Sum>r\<leftarrow>?ms. weightedY ancs r) / (\<Sum>r\<leftarrow>?ms. wifiWeight (level r))
         \<and> (\<forall>r \<in> set ?ms. \<exists>a \<in> set ancs. byBssid ancs (bssid r) = Some a
                  \<and> normalizeBssid (anchor_bssid a) = bssid r)
         \<and> fix_matched wf = length (filter (\<lambda>r. bssid r \<noteq> [] \<and>
               (\<exists>a \<in> set ancs. normalizeBssid (bssid r) = normalizeBssid (anchor_bssid a))) readings)
         \<and> (\<exists>b \<in> set ?ms. fix_best wf = Some b \<and> (\<forall>r \<in> set ?ms. level r \<le> level b))"
    if fx: "computeWifiFix readings ancs = Some wf" for wf
  proof -
    have ne: "?ms \<noteq> []" using fx by (auto simp: computeWifiFix_eq Let_def split: if_splits)
    have wf: "wf = \<lparr>fix_x = (\<Sum>r\<leftarrow>?ms. weightedX ancs r) / (\<Sum>r\<leftarrow>?ms. wifiWeight (level r)),
                    fix_y = (\<Sum>r\<leftarrow>?ms. weightedY ancs r) / (\<Sum>r\<leftarrow>?ms. wifiWeight (level r)),
                    fix_matched = length ?ms,
                    fix_best = Some (foldl ?f (hd ?ms) ?ms)\<rparr>"
      using fx ne by (simp add: computeWifiFix_eq Let_def)
    have 1: "0 < (\<Sum>r\<leftarrow>?ms. wifiWeight (level r))" using sum_weights_pos[OF ne] .
    have 2: "\<forall>r \<in> set ?ms. \<exists>a \<in> set ancs. byBssid ancs (bssid r) = Some a
                  \<and> normalizeBssid (anchor_bssid a) = bssid r"
    proof
      fix r assume "r \<in> set ?ms"
      then obtain a where a: "byBssid ancs (bssid r) = Some a"
        using matchedReadings_set by blast
      then show "\<exists>a \<in> set ancs. byBssid ancs (bssid r) = Some a
                  \<and> normalizeBssid (anchor_bssid a) = bssid r"
        using byBssid_Some_anchor[OF a] by blast
    qed
    have hd: "hd ?ms \<in> set ?ms" using ne by simp
    have 3: "\<exists>b \<in> set ?ms. fix_best wf = Some b \<and> (\<forall>r \<in> set ?ms. level r \<le> level b)"
      using foldl_best[of "hd ?ms" ?ms] hd by (auto simp: wf)
    show ?thesis using 1 2 3 by (simp add: wf matchedReadings_length)
  qed
  show ?thesis using none some by blast
qed

lemma norm_s3: "normalizeBssid ''AA:01'' = ''aa:01''" "normalizeBssid ''AA:02'' = ''aa:02''"
  "normalizeBssid ''aa:01'' = ''aa:01''" "normalizeBssid '' aa:02 '' = ''aa:02''"
  by code_simp+

lemma byBssid_s3:
  "byBssid s3Anchors ''aa:01'' = Some (mkAnchor ''AA:01'' 0 0)"
  "byBssid s3Anchors ''aa:02'' = Some (mkAnchor ''AA:02'' 10 0)"
  by (simp_all add: byBssid_def s3Anchors_def mkAnchor_def norm_s3)

lemma matched_s3:
  "matchedReadings s3Readings s3Anchors
     = [\<lparr>bssid = ''aa:01'', level = - 60\<rparr>, \<lparr>bssid = ''aa:02'', level = - 80\<rparr>]"
  by (simp add: matchedReadings_def s3Readings_def norm_s3 byBssid_s3)

lemma fix_s3:
  "computeWifiFix s3Readings s3Anchors
     = Some \<lparr>fix_x = 10 * exp 2 / (exp 4 + exp 2), fix_y = 0, fix_matched = 2,
             fix_best = Some \<lparr>bssid = ''aa:01'', level = - 60\<rparr>\<rparr>"
  by (simp add: computeWifiFix_eq Let_def matched_s3 weightedX_def weightedY_def byBssid_s3
      mkAnchor_def wifiWeight_60 wifiWeight_80)

theorem computeWifiFix_spec_witness:
  "computeWifiFix s3Readings s3Anchors
     = Some \<lparr>fix_x = 10 * exp 2 / (exp 4 + exp 2), fix_y = 0, fix_matched = 2,
             fix_best = Some \<lparr>bssid = ''aa:01'', level = - 60\<rparr>\<rparr>
   \<and> \<bar>10 * exp 2 / (exp 4 + exp (2::real)) - 119/100\<bar> < 5/1000
   \<and> 0 < (\<Sum>r\<leftarrow>matchedReadings s3Readings s3Anchors. wifiWeight (level r))
   \<and> length (filter (\<lambda>r. bssid r \<noteq> [] \<and>
         (\<exists>a \<in> set s3Anchors. normalizeBssid (bssid r) = normalizeBssid (anchor_bssid a)))
         s3Readings) = 2"
  using computeWifiFix_spec[of s3Readings s3Anchors] fix_s3 s3_ratio by simp

subsection \<open>The pedometer gate\<close>

lemma hypot3_x: "hypot3 a 0 0 = \<bar>a\<bar>"
  by (simp add: hypot3_def)

lemma stepThreshold_quiet: "stepThreshold [0] = 6/100"
  by (simp add: stepThreshold_def windowMean_def windowStd_def clamp_def)

lemma clamp_hi: "lo \<le> hi \<Longrightarrow> hi \<le> n \<Longrightarrow> clamp n lo hi = hi"
  by (simp add: clamp_def)

lemma stepThreshold_peak: "stepThreshold [0, 2] = 16/10"
proof -
  have m: "windowMean [0, 2] = 1" by (simp add: windowMean_def)
  have "windowStd [0, 2] = sqrt 2" by (simp add: windowStd_def m Let_def)
  moreover have "1 \<le> sqrt (2 :: real)" by simp
  ultimately have "1 \<le> windowStd [0, 2]" by simp
  then have "16/10 \<le> windowMean [0, 2] + windowStd [0, 2] * (26/10)" using m by simp
  then show ?thesis unfolding stepThreshold_def by (intro clamp_hi) simp_all
qed

lemma stepThreshold_after: "stepThreshold [0, 2, 0] = 16/10"
proof -
  have m: "windowMean [0, 2, 0] = 2/3" by (simp add: windowMean_def)
  have "windowStd [0, 2, 0] = sqrt (4/3)"
    by (simp add: windowStd_def m Let_def)
  moreover have "1 \<le> sqrt (4/3 :: real)" by simp
  ultimately have "1 \<le> windowStd [0, 2, 0]" by simp
  then have "16/10 \<le> windowMean [0, 2, 0] + windowStd [0, 2, 0] * (26/10)" using m by simp
  then show ?thesis unfolding stepThreshold_def by (intro clamp_hi) simp_all
qed

lemma motionHeading_frame:
  "linAccWindow (motionHeading en s now) = linAccWindow en"
  "peakIn (motionHeading en s now) = peakIn en"
  "peakMax (motionHeading en s now) = peakMax en"
  "lastStepAt (motionHeading en s now) = lastStepAt en"
  "stationarySince (motionHeading en s now) = stationarySince en"
  "pedometerSteps (motionHeading en s now) = pedometerSteps en"
  "stepLengthMeters (motionHeading en s now) = stepLengthMeters en"
  "strideScale (motionHeading en s now) = strideScale en"
  "gravity (motionHeading en s now) = gravity en"
  by (simp_all add: motionHeading_def Let_def split: option.splits)

lemma motion_quiet:
  assumes "stepView en = ([], False, 0, 0, None, 0, 6/10, 1)"
  shows "snd (handleDeviceMotion en (accSample 0) 1000) = []
     \<and> stepView (fst (handleDeviceMotion en (accSample 0) 1000))
         = ([0], False, 0, 0, Some 1000, 0, 6/10, 1)"
  using assms
  by (simp add: stepView_def handleDeviceMotion_def peakDetector_def Let_def motionHeading_frame
      linearAcceleration_def accSample_def hypot3_x stepThreshold_quiet windowMean_def)


lemma motion_peak:
  assumes "stepView en = ([0], False, 0, 0, Some 1000, 0, 6/10, 1)"
  shows "snd (handleDeviceMotion en (accSample 2) 1050) = []
     \<and> stepView (fst (handleDeviceMotion en (accSample 2) 1050))
         = ([0, 2], True, 2, 0, None, 0, 6/10, 1)"
  using assms
  by (simp add: stepView_def handleDeviceMotion_def peakDetector_def Let_def motionHeading_frame
      linearAcceleration_def accSample_def hypot3_x stepThreshold_peak windowMean_def)

lemma motion_step:
  assumes "stepView en = ([0, 2], True, 2, 0, None, 0, 6/10, 1)"
  shows "snd (handleDeviceMotion en (accSample 0) 1100)
         = [\<lparr>ev_source = DeviceMotionStep, ev_stepLen = 692/1000, ev_now = 1100, ev_count = 1\<rparr>]
     \<and> stepView (fst (handleDeviceMotion en (accSample 0) 1100))
         = ([0, 2, 0], False, 2, 1100, Some 1100, 0, 692/1000, 1)"
  using assms
  by (simp add: stepView_def handleDeviceMotion_def peakDetector_def Let_def motionHeading_frame
      linearAcceleration_def accSample_def hypot3_x stepThreshold_after windowMean_def)

lemma pedometer_baseline:
  assumes "stepView en = ([0, 2, 0], False, 2, 1100, Some 1100, 0, 692/1000, 1)"
  shows "snd (sensorListener en (Pedometer 10 1200)) = []
     \<and> stepView (fst (sensorListener en (Pedometer 10 1200)))
         = ([0, 2, 0], False, 2, 1100, Some 1100, 10, 692/1000, 1)"
  using assms by (simp add: stepView_def handlePedometerSteps_def Let_def)

lemma pedometer_emits:
  assumes "stepView en = ([0, 2, 0], False, 2, 1100, Some 1100, 10, 692/1000, 1)"
  shows "snd (sensorListener en (Pedometer 11 3000))
         = [\<lparr>ev_source = PedometerStep, ev_stepLen = 692/1000, ev_now = 3000, ev_count = 1\<rparr>]
     \<and> stepView (fst (sensorListener en (Pedometer 11 3000)))
         = ([0, 2, 0], False, 2, 3000, Some 1100, 11, 692/1000, 1)"
  using assms by (simp add: stepView_def handlePedometerSteps_def Let_def)

lemma pedometer_suppressed:
  assumes "stepView en = ([0, 2, 0], False, 2, 3000, Some 1100, 11, 692/1000, 1)"
  shows "snd (sensorListener en (Pedometer 12 3500)) = []
     \<and> stepView (fst (sensorListener en (Pedometer 12 3500)))
         = ([0, 2, 0], False, 2, 3000, Some 1100, 12, 692/1000, 1)"
  using assms by (simp add: stepView_def handlePedometerSteps_def Let_def)

lemma runSensors_Cons:
  "snd (runSensors en (i # inputs)) = snd (sensorListener en i) @ snd (runSensors (fst (sensorListener en i)) inputs)"
  by (simp split: prod.splits)

lemma stepView_start: "stepView (pdrReset newPdrEngine (Some 0) (Some 1)) = ([], False, 0, 0, None, 0, 6/10, 1)"
  by (simp add: stepView_def pdrReset_def Let_def)

lemma peakDetector_events:
  "(snd (peakDetector en lm mean th st now) = []
      \<and> lastStepAt (fst (peakDetector en lm mean th st now)) = lastStepAt en)
   \<or> (\<exists>len. snd (peakDetector en lm mean th st now)
         = [\<lparr>ev_source = DeviceMotionStep, ev_stepLen = len, ev_now = now, ev_count = 1\<rparr>]
       \<and> lastStepAt (fst (peakDetector en lm mean th st now)) = now)"
  by (simp add: peakDetector_def Let_def)

lemma handleDeviceMotion_events:
  "(snd (handleDeviceMotion en s now) = [] \<and> lastStepAt (fst (handleDeviceMotion en s now)) = lastStepAt en)
   \<or> (\<exists>len. snd (handleDeviceMotion en s now)
         = [\<lparr>ev_source = DeviceMotionStep, ev_stepLen = len, ev_now = now, ev_count = 1\<rparr>]
       \<and> lastStepAt (fst (handleDeviceMotion en s now)) = now)"
proof -
  obtain en2 lm mean th st where
    h: "handleDeviceMotion en s now = peakDetector en2 lm mean th st now"
    and l: "lastStepAt en2 = lastStepAt en"
    by (simp add: handleDeviceMotion_def Let_def motionHeading_frame)
  show ?thesis unfolding h using peakDetector_events[of en2 lm mean th st now] l by simp
qed

lemma handlePedometerSteps_events:
  "(snd (handlePedometerSteps en tot now recent) = []
      \<and> lastStepAt (fst (handlePedometerSteps en tot now recent)) = lastStepAt en)
   \<or> (\<not> recent \<and> (\<exists>len c. snd (handlePedometerSteps en tot now recent)
         = [\<lparr>ev_source = PedometerStep, ev_stepLen = len, ev_now = now, ev_count = c\<rparr>])
       \<and> lastStepAt (fst (handlePedometerSteps en tot now recent)) = now)"
  by (simp add: handlePedometerSteps_def Let_def)


text \<open>A step at a positive time leaves a positive \<open>lastStepAt\<close>; the gate then holds every
  pedometer step back until 1800 ms after it.\<close>

lemma sensorListener_step:
  assumes "sensorListener en i = (en1, evs)"
  shows "(evs = [] \<and> lastStepAt en1 = lastStepAt en)
      \<or> (lastStepAt en1 = inputTime i
          \<and> (\<exists>e. evs = [e] \<and> ev_now e = inputTime i
                \<and> (ev_source e = PedometerStep \<longrightarrow>
                     \<not> (lastStepAt en > 0 \<and> inputTime i - lastStepAt en < 1800))))"
proof (cases i)
  case (Motion m now)
  then have r: "handleDeviceMotion en m now = (en1, evs)" using assms by simp
  show ?thesis using handleDeviceMotion_events[of en m now] Motion by (auto simp: r)
next
  case (Pedometer steps now)
  let ?recent = "lastStepAt en > 0 \<and> now - lastStepAt en < 1800"
  have r: "handlePedometerSteps en steps now ?recent = (en1, evs)"
    using assms Pedometer by simp
  show ?thesis using handlePedometerSteps_events[of en steps now ?recent] Pedometer
    by (auto simp: r)
qed

lemma pedometer_after_last_step:
  assumes "sorted (map inputTime inputs)"
    and "\<forall>i \<in> set inputs. lastStepAt en \<le> inputTime i"
    and "0 < lastStepAt en"
  shows "\<forall>p \<in> set (snd (runSensors en inputs)).
           lastStepAt en \<le> ev_now p
           \<and> (ev_source p = PedometerStep \<longrightarrow> 1800 \<le> ev_now p - lastStepAt en)"
  using assms
proof (induction inputs arbitrary: en)
  case Nil
  then show ?case by simp
next
  case (Cons i inputs)
  obtain en1 evs where st: "sensorListener en i = (en1, evs)" by (cases "sensorListener en i")
  have ti: "lastStepAt en \<le> inputTime i" using Cons.prems(2) by simp
  have later: "\<forall>j \<in> set inputs. inputTime i \<le> inputTime j"
    using Cons.prems(1) by simp
  from sensorListener_step[OF st]
  have l1: "lastStepAt en \<le> lastStepAt en1" "lastStepAt en1 \<le> inputTime i"
    using ti by auto
  have ih: "\<forall>p \<in> set (snd (runSensors en1 inputs)).
           lastStepAt en1 \<le> ev_now p
           \<and> (ev_source p = PedometerStep \<longrightarrow> 1800 \<le> ev_now p - lastStepAt en1)"
  proof (rule Cons.IH)
    show "sorted (map inputTime inputs)" using Cons.prems(1) by simp
    show "\<forall>i \<in> set inputs. lastStepAt en1 \<le> inputTime i" using later l1 by fastforce
    show "0 < lastStepAt en1" using l1 Cons.prems(3) by linarith
  qed
  have now: "\<forall>p \<in> set evs. lastStepAt en \<le> ev_now p
           \<and> (ev_source p = PedometerStep \<longrightarrow> 1800 \<le> ev_now p - lastStepAt en)"
    using sensorListener_step[OF st] ti Cons.prems(3) by auto
  have out: "snd (runSensors en (i # inputs)) = evs @ snd (runSensors en1 inputs)"
    using st by (simp split: prod.splits)
  show ?case unfolding out using now ih l1 by fastforce
qed


text \<open>
  The gate holds in one direction: when the inputs arrive with positive, non-decreasing
  timestamps, no pedometer step is emitted less than 1800 ms after a device-motion step.
\<close>

lemma pedometer_gate_respected:
  assumes "sorted (map inputTime inputs)"
    and "\<forall>i \<in> set inputs. 0 < inputTime i"
  shows "gateRespected (snd (runSensors en inputs))"
  using assms
proof (induction inputs arbitrary: en)
  case Nil
  then show ?case by simp
next
  case (Cons i inputs)
  obtain en1 evs where st: "sensorListener en i = (en1, evs)" by (cases "sensorListener en i")
  have out: "snd (runSensors en (i # inputs)) = evs @ snd (runSensors en1 inputs)"
    using st by (simp split: prod.splits)
  have ih: "gateRespected (snd (runSensors en1 inputs))"
    using Cons.IH[of en1] Cons.prems by simp
  from sensorListener_step[OF st] show ?case
  proof
    assume "evs = [] \<and> lastStepAt en1 = lastStepAt en"
    then show ?thesis using ih out by simp
  next
    assume a: "lastStepAt en1 = inputTime i
          \<and> (\<exists>e. evs = [e] \<and> ev_now e = inputTime i
                \<and> (ev_source e = PedometerStep \<longrightarrow>
                     \<not> (lastStepAt en > 0 \<and> inputTime i - lastStepAt en < 1800)))"
    then obtain e where e: "evs = [e]" "ev_now e = inputTime i" by blast
    have "\<forall>p \<in> set (snd (runSensors en1 inputs)).
           lastStepAt en1 \<le> ev_now p
           \<and> (ev_source p = PedometerStep \<longrightarrow> 1800 \<le> ev_now p - lastStepAt en1)"
    proof (rule pedometer_after_last_step)
      show "sorted (map inputTime inputs)" using Cons.prems(1) by simp
      show "\<forall>j \<in> set inputs. lastStepAt en1 \<le> inputTime j" using Cons.prems(1) a by simp
      show "0 < lastStepAt en1" using Cons.prems(2) a by simp
    qed
    then show ?thesis using ih out e a by simp
  qed
qed

text \<open>
  C3 on the walk \<open>walkInputs\<close>: the device-motion step is at 1100 ms. The pedometer delta
  of 1 at 3000 ms, 1900 ms later, is emitted and moves \<open>lastStepAt\<close> to 3000. The next
  delta of 1, at 3500 ms, arrives 2400 ms after the last device-motion step, but the
  listener computes \<open>recentlyDeviceMotion\<close> from \<open>lastStepAt\<close>, which the pedometer step
  itself has written: no event is emitted for it.
\<close>

theorem pedometer_suppressed_after_pedometer_step:
  "snd (runSensors (pdrReset newPdrEngine (Some 0) (Some 1)) walkInputs)
     = [\<lparr>ev_source = DeviceMotionStep, ev_stepLen = 692/1000, ev_now = 1100, ev_count = 1\<rparr>,
        \<lparr>ev_source = PedometerStep, ev_stepLen = 692/1000, ev_now = 3000, ev_count = 1\<rparr>]"
proof -
  let ?e0 = "pdrReset newPdrEngine (Some 0) (Some 1)"
  let ?e1 = "fst (sensorListener ?e0 (Motion (accSample 0) 1000))"
  let ?e2 = "fst (sensorListener ?e1 (Motion (accSample 2) 1050))"
  let ?e3 = "fst (sensorListener ?e2 (Motion (accSample 0) 1100))"
  let ?e4 = "fst (sensorListener ?e3 (Pedometer 10 1200))"
  let ?e5 = "fst (sensorListener ?e4 (Pedometer 11 3000))"
  have s1: "snd (sensorListener ?e0 (Motion (accSample 0) 1000)) = []"
    and v1: "stepView ?e1 = ([0], False, 0, 0, Some 1000, 0, 6/10, 1)"
    using motion_quiet[OF stepView_start] by simp_all
  have s2: "snd (sensorListener ?e1 (Motion (accSample 2) 1050)) = []"
    and v2: "stepView ?e2 = ([0, 2], True, 2, 0, None, 0, 6/10, 1)"
    using motion_peak[OF v1] by simp_all
  have s3: "snd (sensorListener ?e2 (Motion (accSample 0) 1100))
         = [\<lparr>ev_source = DeviceMotionStep, ev_stepLen = 692/1000, ev_now = 1100, ev_count = 1\<rparr>]"
    and v3: "stepView ?e3 = ([0, 2, 0], False, 2, 1100, Some 1100, 0, 692/1000, 1)"
    using motion_step[OF v2] by simp_all
  have s4: "snd (sensorListener ?e3 (Pedometer 10 1200)) = []"
    and v4: "stepView ?e4 = ([0, 2, 0], False, 2, 1100, Some 1100, 10, 692/1000, 1)"
    using pedometer_baseline[OF v3] by blast+
  have s5: "snd (sensorListener ?e4 (Pedometer 11 3000))
         = [\<lparr>ev_source = PedometerStep, ev_stepLen = 692/1000, ev_now = 3000, ev_count = 1\<rparr>]"
    and v5: "stepView ?e5 = ([0, 2, 0], False, 2, 3000, Some 1100, 11, 692/1000, 1)"
    using pedometer_emits[OF v4] by blast+
  have s6: "snd (sensorListener ?e5 (Pedometer 12 3500)) = []"
    using pedometer_suppressed[OF v5] by blast
  show ?thesis
    unfolding walkInputs_def runSensors_Cons s1 s2 s3 s4 s5 s6 by simp
qed

subsection \<open>Shortest paths\<close>

lemma row_nodeById:
  "first \<noteq> ''b'' \<Longrightarrow> first \<noteq> ''c'' \<Longrightarrow> nodeById (rowMap first) first = Some (mkNode first 0 0)"
  "first \<noteq> ''b'' \<Longrightarrow> nodeById (rowMap first) ''b'' = Some (mkNode ''b'' 10 0)"
  "first \<noteq> ''c'' \<Longrightarrow> nodeById (rowMap first) ''c'' = Some (mkNode ''c'' 20 0)"
  by (simp_all add: nodeById_def rowMap_def mkNode_def)

lemma row_usable: "usableEdges (rowMap first) = [mkEdge first ''b'', mkEdge ''b'' ''c'']"
  by (simp add: usableEdges_def rowMap_def mkEdge_def isUsableEdge_def)

lemma row_proj1:
  "projectPointToSegment \<lparr>ptx = 1, pty = 0\<rparr> \<lparr>ptx = 0, pty = 0\<rparr> \<lparr>ptx = 10, pty = 0\<rparr>
   = \<lparr>proj_t = 1/10, proj_point = \<lparr>ptx = 1, pty = 0\<rparr>, proj_distance = 0\<rparr>"
  by (simp add: projectPointToSegment_def Let_def clamp_def hypot_zero_left)

lemma row_proj2:
  "projectPointToSegment \<lparr>ptx = 1, pty = 0\<rparr> \<lparr>ptx = 10, pty = 0\<rparr> \<lparr>ptx = 20, pty = 0\<rparr>
   = \<lparr>proj_t = 0, proj_point = \<lparr>ptx = 10, pty = 0\<rparr>, proj_distance = 9\<rparr>"
  by (simp add: projectPointToSegment_def Let_def clamp_def hypot_zero_right)

lemma row_snap:
  assumes "first \<noteq> ''b''" "first \<noteq> ''c''"
  shows "snapToGraph (rowMap first) \<lparr>ptx = 1, pty = 0\<rparr>
     \<lparr>maxSnapMeters = Some 3, previousEdge = None, switchPenaltyMeters = None, hardClamp = None\<rparr>
   = \<lparr>snapped = \<lparr>ptx = 1, pty = 0\<rparr>, distance = Fin 0,
       edge = Some \<lparr>ref_from = first, ref_to = ''b''\<rparr>, snap_t = 1/10\<rparr>"
  using assms
  by (simp add: snapToGraph_def Let_def row_usable bestOnEdges_def row_nodeById
      mkEdge_def mkNode_def row_proj1 row_proj2 penalty_def isPrev_def isConnectedToPrev_def)


lemma adj_empty:
  "buildAdjacency
     [mkNode [] 0 0, mkNode ''b'' 10 0, mkNode ''c'' 20 0,
      \<lparr>node_id = ''__start__'', node_label = ''Start'', node_x = 1, node_y = 0, node_floor = 0,
        node_type = Walkway, sectionId = None\<rparr>]
     [mkEdge [] ''b'', mkEdge ''b'' ''c'',
      \<lparr>edge_from = ''__start__'', edge_to = [], edge_distance = Some 1, bidirectional = Some True\<rparr>,
      \<lparr>edge_from = ''__start__'', edge_to = ''b'', edge_distance = Some 9, bidirectional = Some True\<rparr>]
   = [([], [(''b'', 10), (''__start__'', 1)]),
      (''b'', [([], 10), (''c'', 10), (''__start__'', 9)]),
      (''c'', [(''b'', 10)]),
      (''__start__'', [([], 1), (''b'', 9)])]"
  by (simp add: buildAdjacency_def adjacencyStep_def byId_def mkNode_def mkEdge_def adjPush_def
      nodePoint_def dist2_def hypot_zero_right Let_def)

lemma dijkstra_empty:
  "fst (dijkstra
     [([], [(''b'', 10), (''__start__'', 1)]),
      (''b'', [([], 10), (''c'', 10), (''__start__'', 9)]),
      (''c'', [(''b'', 10)]),
      (''__start__'', [([], 1), (''b'', 9)])] ''__start__'') ''c'' = PosInf"
  by (simp add: dijkstra_def dijkstraLoop.simps adjOf_def relaxStep_def Let_def)


lemma emptyId_nodes:
  "nodeById emptyIdMap [] = Some (mkNode [] 0 0)"
  "nodeById emptyIdMap ''b'' = Some (mkNode ''b'' 10 0)"
  by (simp_all add: emptyIdMap_def row_nodeById)

lemma shortest_empty:
  "shortestPathFromPoint emptyIdMap \<lparr>ptx = 1, pty = 0\<rparr> ''c'' = Some None"
proof -
  have snap: "snapToGraph emptyIdMap \<lparr>ptx = 1, pty = 0\<rparr>
     \<lparr>maxSnapMeters = Some 3, previousEdge = None, switchPenaltyMeters = None, hardClamp = None\<rparr>
   = \<lparr>snapped = \<lparr>ptx = 1, pty = 0\<rparr>, distance = Fin 0,
       edge = Some \<lparr>ref_from = [], ref_to = ''b''\<rparr>, snap_t = 1/10\<rparr>"
    unfolding emptyIdMap_def by (rule row_snap) simp_all
  have ns: "nodes emptyIdMap = [mkNode [] 0 0, mkNode ''b'' 10 0, mkNode ''c'' 20 0]"
    and es: "edges emptyIdMap = Some [mkEdge [] ''b'', mkEdge ''b'' ''c'']"
    by (simp_all add: emptyIdMap_def rowMap_def)
  have isnode: "\<exists>n \<in> set (nodes emptyIdMap). node_id n = ''c''"
    by (simp add: ns mkNode_def)
  show ?thesis
    using isnode
    by (simp add: shortestPathFromPoint_def Let_def snap emptyId_nodes virtualId_def
        nodePoint_def dist2_def hypot_zero_right ns es adj_empty[unfolded mkNode_def]
        mkNode_def case_prod_beta dijkstra_empty)
qed


lemma adj_named:
  "buildAdjacency
     [mkNode ''a'' 0 0, mkNode ''b'' 10 0, mkNode ''c'' 20 0,
      \<lparr>node_id = ''__start__'', node_label = ''Start'', node_x = 1, node_y = 0, node_floor = 0,
        node_type = Walkway, sectionId = None\<rparr>]
     [mkEdge ''a'' ''b'', mkEdge ''b'' ''c'',
      \<lparr>edge_from = ''__start__'', edge_to = ''a'', edge_distance = Some 1, bidirectional = Some True\<rparr>,
      \<lparr>edge_from = ''__start__'', edge_to = ''b'', edge_distance = Some 9, bidirectional = Some True\<rparr>]
   = [(''a'', [(''b'', 10), (''__start__'', 1)]),
      (''b'', [(''a'', 10), (''c'', 10), (''__start__'', 9)]),
      (''c'', [(''b'', 10)]),
      (''__start__'', [(''a'', 1), (''b'', 9)])]"
  by (simp add: buildAdjacency_def adjacencyStep_def byId_def mkNode_def mkEdge_def adjPush_def
      nodePoint_def dist2_def hypot_zero_right Let_def)

lemma dijkstra_named:
  "fst (dijkstra
     [(''a'', [(''b'', 10), (''__start__'', 1)]),
      (''b'', [(''a'', 10), (''c'', 10), (''__start__'', 9)]),
      (''c'', [(''b'', 10)]),
      (''__start__'', [(''a'', 1), (''b'', 9)])] ''__start__'') ''c'' = Fin 19"
  "snd (dijkstra
     [(''a'', [(''b'', 10), (''__start__'', 1)]),
      (''b'', [(''a'', 10), (''c'', 10), (''__start__'', 9)]),
      (''c'', [(''b'', 10)]),
      (''__start__'', [(''a'', 1), (''b'', 9)])] ''__start__'') ''c'' = Some ''b''"
  "snd (dijkstra
     [(''a'', [(''b'', 10), (''__start__'', 1)]),
      (''b'', [(''a'', 10), (''c'', 10), (''__start__'', 9)]),
      (''c'', [(''b'', 10)]),
      (''__start__'', [(''a'', 1), (''b'', 9)])] ''__start__'') ''b'' = Some ''__start__''"
  by (simp_all add: dijkstra_def dijkstraLoop.simps adjOf_def relaxStep_def Let_def)

lemma namedId_nodes:
  "nodeById namedIdMap ''a'' = Some (mkNode ''a'' 0 0)"
  "nodeById namedIdMap ''b'' = Some (mkNode ''b'' 10 0)"
  "nodeById namedIdMap ''c'' = Some (mkNode ''c'' 20 0)"
  by (simp_all add: namedIdMap_def row_nodeById)

lemma shortest_named:
  "shortestPathFromPoint namedIdMap \<lparr>ptx = 1, pty = 0\<rparr> ''c''
   = Some (Some \<lparr>nodeIds = [''__start__'', ''b'', ''c''],
        points = [\<lparr>ptx = 1, pty = 0\<rparr>, \<lparr>ptx = 10, pty = 0\<rparr>, \<lparr>ptx = 20, pty = 0\<rparr>],
        lengthMeters = 19\<rparr>)"
proof -
  have snap: "snapToGraph namedIdMap \<lparr>ptx = 1, pty = 0\<rparr>
     \<lparr>maxSnapMeters = Some 3, previousEdge = None, switchPenaltyMeters = None, hardClamp = None\<rparr>
   = \<lparr>snapped = \<lparr>ptx = 1, pty = 0\<rparr>, distance = Fin 0,
       edge = Some \<lparr>ref_from = ''a'', ref_to = ''b''\<rparr>, snap_t = 1/10\<rparr>"
    unfolding namedIdMap_def by (rule row_snap) simp_all
  have ns: "nodes namedIdMap = [mkNode ''a'' 0 0, mkNode ''b'' 10 0, mkNode ''c'' 20 0]"
    and es: "edges namedIdMap = Some [mkEdge ''a'' ''b'', mkEdge ''b'' ''c'']"
    by (simp_all add: namedIdMap_def rowMap_def)
  have isnode: "\<exists>n \<in> set (nodes namedIdMap). node_id n = ''c''"
    by (simp add: ns mkNode_def)
  show ?thesis
    using isnode
    by (simp add: shortestPathFromPoint_def Let_def snap namedId_nodes virtualId_def
        nodePoint_def dist2_def hypot_zero_right ns es adj_named[unfolded mkNode_def]
        mkNode_def case_prod_beta dijkstra_named reconstruct_def reconstructLoop.simps)
qed


text \<open>
  What \<open>dijkstra\<close> computes when no key is the empty string: the scan picks a finite node of
  the queue or none, the relaxation makes the neighbours in the queue finite, and the loop ends
  with a finite distance at exactly the nodes reached from the start.
\<close>

lemma selectMin_Some:
  "selectMinLoop d q (u0, b0) = (Some u, b) \<Longrightarrow>
     (u0 = Some u \<and> b = b0) \<or> (u \<in> set q \<and> d u \<noteq> PosInf)"
proof (induction q arbitrary: u0 b0)
  case Nil
  then show ?case by simp
next
  case (Cons i q)
  show ?case
  proof (cases "num_less (d i) b0")
    case True
    then have "selectMinLoop d q (Some i, d i) = (Some u, b)" using Cons.prems by simp
    from Cons.IH[OF this] True show ?thesis by (cases "d i"; cases b0) auto
  next
    case False
    then have "selectMinLoop d q (u0, b0) = (Some u, b)" using Cons.prems by simp
    from Cons.IH[OF this] show ?thesis by auto
  qed
qed

lemma selectMin_None:
  "selectMinLoop d q (u0, b0) = (None, b) \<Longrightarrow>
     u0 = None \<and> b = b0 \<and> (\<forall>i \<in> set q. \<not> num_less (d i) b0)"
proof (induction q arbitrary: u0 b0)
  case Nil
  then show ?case by simp
next
  case (Cons i q)
  show ?case
  proof (cases "num_less (d i) b0")
    case True
    then have "selectMinLoop d q (Some i, d i) = (None, b)" using Cons.prems by simp
    from Cons.IH[OF this] show ?thesis by simp
  next
    case False
    then have "selectMinLoop d q (u0, b0) = (None, b)" using Cons.prems by simp
    from Cons.IH[OF this] False show ?thesis by auto
  qed
qed

lemma selectMin_start_Some:
  assumes "fst (selectMinLoop d q (None, PosInf)) = Some u"
  shows "u \<in> set q \<and> d u \<noteq> PosInf"
proof -
  obtain b where "selectMinLoop d q (None, PosInf) = (Some u, b)"
    using assms by (cases "selectMinLoop d q (None, PosInf)") simp
  from selectMin_Some[OF this] show ?thesis by simp
qed

lemma selectMin_start_None:
  assumes "fst (selectMinLoop d q (None, PosInf)) = None"
  shows "\<forall>i \<in> set q. d i = PosInf"
proof -
  obtain b where "selectMinLoop d q (None, PosInf) = (None, b)"
    using assms by (cases "selectMinLoop d q (None, PosInf)") simp
  from selectMin_None[OF this] have "\<forall>i \<in> set q. \<not> num_less (d i) PosInf" by simp
  then show ?thesis
  proof (intro ballI)
    fix i assume "i \<in> set q" "\<forall>i \<in> set q. \<not> num_less (d i) PosInf"
    then show "d i = PosInf" by (cases "d i") auto
  qed
qed

text \<open>The relaxation of the neighbours of a node \<open>u\<close> that is finite and out of the queue.\<close>

lemma relax_fold:
  assumes "d u \<noteq> PosInf" "u \<notin> set q"
    and "fold (relaxStep u q) xs (d, p) = (d', p')"
  shows "d' u = d u
     \<and> (\<forall>v. d v \<noteq> PosInf \<longrightarrow> d' v \<noteq> PosInf)
     \<and> (\<forall>v. d' v \<noteq> PosInf \<longrightarrow> d v \<noteq> PosInf \<or> v \<in> fst ` set xs)
     \<and> (\<forall>v \<in> fst ` set xs. v \<in> set q \<longrightarrow> d' v \<noteq> PosInf)"
  using assms
proof (induction xs arbitrary: d p)
  case Nil
  then show ?case by simp
next
  case (Cons x xs)
  obtain v w where x: "x = (v, w)" by (cases x)
  obtain d1 p1 where s1: "relaxStep u q x (d, p) = (d1, p1)" by (cases "relaxStep u q x (d, p)")
  obtain du where du: "d u = Fin du" using Cons.prems(1) by (cases "d u") auto
  have d1u: "d1 u = d u" using s1 Cons.prems(2) x
    by (auto simp: relaxStep_def Let_def split: if_splits)
  have keep: "\<forall>z. d z \<noteq> PosInf \<longrightarrow> d1 z \<noteq> PosInf"
    using s1 x du by (auto simp: relaxStep_def Let_def split: if_splits)
  have new: "\<forall>z. d1 z \<noteq> PosInf \<longrightarrow> d z \<noteq> PosInf \<or> z = v"
    using s1 x by (auto simp: relaxStep_def Let_def split: if_splits)
  have hit: "v \<in> set q \<longrightarrow> d1 v \<noteq> PosInf"
  proof
    assume vq: "v \<in> set q"
    show "d1 v \<noteq> PosInf"
    proof (cases "num_less (Fin (du + w)) (d v)")
      case True
      then show ?thesis using s1 x du vq by (auto simp: relaxStep_def Let_def)
    next
      case False
      then have "d v \<noteq> PosInf" by (cases "d v") auto
      then show ?thesis using keep by simp
    qed
  qed
  have run: "fold (relaxStep u q) xs (d1, p1) = (d', p')"
    using Cons.prems(3) s1 by simp
  have "d1 u \<noteq> PosInf" using d1u Cons.prems(1) by simp
  note ih = Cons.IH[OF this Cons.prems(2) run]
  have a: "d' u = d u" using ih d1u by simp
  have b: "\<forall>z. d z \<noteq> PosInf \<longrightarrow> d' z \<noteq> PosInf" using ih keep by blast
  have c: "\<forall>z. d' z \<noteq> PosInf \<longrightarrow> d z \<noteq> PosInf \<or> z \<in> fst ` set (x # xs)"
    using ih new x by auto
  have e: "\<forall>z \<in> fst ` set (x # xs). z \<in> set q \<longrightarrow> d' z \<noteq> PosInf"
    using ih hit x by auto
  show ?case using a b c e by blast
qed

lemma adjRel_succ: "fst ` set (adjOf adj u) = {v. (u, v) \<in> adjRel adj}"
  by (auto simp: adjRel_def image_iff) force

lemma dijkstraInv_exit:
  assumes inv: "dijkstraInv adj start d q" and ok: "adjOk adj"
    and inf: "\<forall>i \<in> set q. d i = PosInf"
    and reach: "(start, v) \<in> (adjRel adj)\<^sup>*"
  shows "d v \<noteq> PosInf \<and> v \<in> adjKeys adj"
  using reach
proof (induction rule: rtrancl_induct)
  case base
  then show ?case using inv by (simp add: dijkstraInv_def)
next
  case (step y z)
  have "y \<notin> set q" using step.IH inf by auto
  then have "y \<in> adjKeys adj - set q" using step.IH by simp
  then have "d z \<noteq> PosInf" using inv step.hyps(2) by (auto simp: dijkstraInv_def)
  moreover have "z \<in> adjKeys adj" using ok step.hyps(2) by (auto simp: adjOk_def)
  ultimately show ?case by simp
qed

lemma dijkstraInv_step:
  assumes inv: "dijkstraInv adj start d q" and ok: "adjOk adj"
    and u: "u \<in> set q" "d u \<noteq> PosInf"
    and rel: "fold (relaxStep u (removeAll u q)) (adjOf adj u) (d, p) = (d', p')"
  shows "dijkstraInv adj start d' (removeAll u q)"
proof -
  have unq: "u \<notin> set (removeAll u q)" by simp
  note r = relax_fold[OF u(2) unq rel]
  have ukey: "u \<in> adjKeys adj" using inv u(1) by (auto simp: dijkstraInv_def)
  have ureach: "(start, u) \<in> (adjRel adj)\<^sup>*" using inv u(2) by (simp add: dijkstraInv_def)
  have 1: "set (removeAll u q) \<subseteq> adjKeys adj" using inv by (auto simp: dijkstraInv_def)
  have 2: "start \<in> adjKeys adj" using inv by (simp add: dijkstraInv_def)
  have 3: "d' start \<noteq> PosInf" using inv r by (simp add: dijkstraInv_def)
  have 4: "\<forall>v. d' v \<noteq> PosInf \<longrightarrow> (start, v) \<in> (adjRel adj)\<^sup>*"
  proof (intro allI impI)
    fix v assume "d' v \<noteq> PosInf"
    then consider "d v \<noteq> PosInf" | "v \<in> fst ` set (adjOf adj u)" using r by blast
    then show "(start, v) \<in> (adjRel adj)\<^sup>*"
    proof cases
      case 1
      then show ?thesis using inv by (simp add: dijkstraInv_def)
    next
      case 2
      then have "(u, v) \<in> adjRel adj" using adjRel_succ[of adj u] by auto
      then show ?thesis using ureach by (rule rtrancl_into_rtrancl[rotated])
    qed
  qed
  have 5: "\<forall>x \<in> adjKeys adj - set (removeAll u q).
             d' x \<noteq> PosInf \<and> (\<forall>v. (x, v) \<in> adjRel adj \<longrightarrow> d' v \<noteq> PosInf)"
  proof
    fix x assume x: "x \<in> adjKeys adj - set (removeAll u q)"
    show "d' x \<noteq> PosInf \<and> (\<forall>v. (x, v) \<in> adjRel adj \<longrightarrow> d' v \<noteq> PosInf)"
    proof (cases "x = u")
      case True
      have a: "d' u \<noteq> PosInf" using r u(2) by simp
      have b: "d' v \<noteq> PosInf" if uv: "(u, v) \<in> adjRel adj" for v
      proof (cases "v \<in> set (removeAll u q)")
        case True
        moreover have "v \<in> fst ` set (adjOf adj u)" using uv adjRel_succ[of adj u] by auto
        ultimately show ?thesis using r by blast
      next
        case False
        have vk: "v \<in> adjKeys adj" using ok uv by (auto simp: adjOk_def)
        show ?thesis
        proof (cases "v = u")
          case True
          then show ?thesis using a by simp
        next
          case False
          then have "v \<in> adjKeys adj - set q" using vk \<open>v \<notin> set (removeAll u q)\<close> by auto
          then have "d v \<noteq> PosInf" using inv by (auto simp: dijkstraInv_def)
          then show ?thesis using r by blast
        qed
      qed
      show ?thesis using True a b by blast
    next
      case False
      then have "x \<in> adjKeys adj - set q" using x by auto
      then have "d x \<noteq> PosInf \<and> (\<forall>v. (x, v) \<in> adjRel adj \<longrightarrow> d v \<noteq> PosInf)"
        using inv by (auto simp: dijkstraInv_def)
      then show ?thesis using r by blast
    qed
  qed
  show ?thesis unfolding dijkstraInv_def using 1 2 3 4 5 by blast
qed

lemma dijkstraLoop_reach:
  assumes "dijkstraInv adj start d q" "adjOk adj" "dijkstraLoop adj d p q = (d', p')"
  shows "(d' v \<noteq> PosInf) = ((start, v) \<in> (adjRel adj)\<^sup>*)"
  using assms
proof (induction adj d p q rule: dijkstraLoop.induct)
  case (1 adj d p q)
  note inv = "1.prems"(1) and ok = "1.prems"(2) and run = "1.prems"(3)
  have sound: "\<forall>z. d z \<noteq> PosInf \<longrightarrow> (start, z) \<in> (adjRel adj)\<^sup>*"
    using inv by (simp add: dijkstraInv_def)
  show ?case
  proof (cases "q = []")
    case True
    then have eq: "d' = d" using run by (simp add: dijkstraLoop.simps)
    have "\<forall>i \<in> set q. d i = PosInf" using True by simp
    from dijkstraInv_exit[OF inv ok this] sound show ?thesis unfolding eq by blast
  next
    case qne: False
    show ?thesis
    proof (cases "fst (selectMinLoop d q (None, PosInf))")
      case None
      then have eq: "d' = d" using run qne by (simp add: dijkstraLoop.simps)
      from dijkstraInv_exit[OF inv ok selectMin_start_None[OF None]] sound
      show ?thesis unfolding eq by blast
    next
      case (Some u)
      have u: "u \<in> set q" "d u \<noteq> PosInf" using selectMin_start_Some[OF Some] by simp_all
      have "u \<in> adjKeys adj" using inv u(1) by (auto simp: dijkstraInv_def)
      then have une: "u \<noteq> []" using ok by (auto simp: adjOk_def)
      obtain d1 p1 where rel: "fold (relaxStep u (removeAll u q)) (adjOf adj u) (d, p) = (d1, p1)"
        by (cases "fold (relaxStep u (removeAll u q)) (adjOf adj u) (d, p)")
      have next_run: "dijkstraLoop adj d1 p1 (removeAll u q) = (d', p')"
        using run qne Some une rel by (simp add: dijkstraLoop.simps[of adj d p q])
      have inv1: "dijkstraInv adj start d1 (removeAll u q)"
        using dijkstraInv_step[OF inv ok u rel] .
      show ?thesis
        using "1.IH"[OF qne Some une rel[symmetric] inv1 ok next_run] .
    qed
  qed
qed

lemma dijkstra_reach:
  assumes ok: "adjOk adj" and key: "start \<in> adjKeys adj"
  shows "(fst (dijkstra adj start) v \<noteq> PosInf) = ((start, v) \<in> (adjRel adj)\<^sup>*)"
proof -
  let ?d0 = "\<lambda>i. if i = start then Fin 0 else PosInf"
  obtain d' p' where run: "dijkstraLoop adj ?d0 (\<lambda>i. None) (map fst adj) = (d', p')"
    by (cases "dijkstraLoop adj ?d0 (\<lambda>i. None) (map fst adj)")
  have inv: "dijkstraInv adj start ?d0 (map fst adj)"
    using key by (auto simp: dijkstraInv_def adjKeys_def)
  from dijkstraLoop_reach[OF inv ok run] show ?thesis by (simp add: dijkstra_def run)
qed

lemma adjClosed_adjPush:
  "adjClosed K adj \<Longrightarrow> t \<in> K \<Longrightarrow> adjClosed K (adjPush adj k (t, w))"
  unfolding adjClosed_def adjPush_def
  by (auto simp: image_iff split: if_splits) force+

lemma byId_Some_mem: "byId ns k = Some n \<Longrightarrow> k \<in> node_id ` set ns"
  unfolding byId_def by (auto dest!: map_of_SomeD)

lemma adjClosed_adjacencyStep:
  assumes "adjClosed (node_id ` set ns) adj"
  shows "adjClosed (node_id ` set ns) (adjacencyStep (byId ns) adj e)"
proof (cases "byId ns (edge_from e)")
  case None
  then show ?thesis using assms by (simp add: adjacencyStep_def)
next
  case (Some a)
  note sa = Some
  show ?thesis
  proof (cases "byId ns (edge_to e)")
    case None
    then show ?thesis using assms sa by (simp add: adjacencyStep_def)
  next
    case (Some b)
    have f: "edge_from e \<in> node_id ` set ns" using byId_Some_mem[OF sa] .
    have t: "edge_to e \<in> node_id ` set ns" using byId_Some_mem[OF Some] .
    show ?thesis
      using assms sa Some f t
      by (simp add: adjacencyStep_def Let_def adjClosed_adjPush)
  qed
qed

lemma adjClosed_foldl:
  "adjClosed (node_id ` set ns) adj \<Longrightarrow>
     adjClosed (node_id ` set ns) (foldl (adjacencyStep (byId ns)) adj es)"
  by (induction es arbitrary: adj) (simp_all add: adjClosed_adjacencyStep)

lemma adjClosed_buildAdjacency: "adjClosed (node_id ` set ns) (buildAdjacency ns es)"
  unfolding buildAdjacency_def
  by (rule adjClosed_foldl) (auto simp: adjClosed_def image_iff)

lemma adjClosed_adjOk:
  assumes "adjClosed K adj" "[] \<notin> K"
  shows "adjOk adj"
proof -
  have "v \<in> K" if "(u, v) \<in> adjRel adj" for u v
  proof -
    from that obtain w where w: "(v, w) \<in> set (adjOf adj u)" by (auto simp: adjRel_def)
    then obtain vs where "map_of adj u = Some vs" "(v, w) \<in> set vs"
      by (cases "map_of adj u") (auto simp: adjOf_def)
    then have "(u, vs) \<in> set adj" by (auto dest: map_of_SomeD)
    then show ?thesis using assms(1) \<open>(v, w) \<in> set vs\<close> by (auto simp: adjClosed_def)
  qed
  then show ?thesis using assms by (auto simp: adjOk_def adjKeys_def adjClosed_def)
qed

text \<open>
  On the adjacency of a map none of whose node ids is the empty string, \<open>dijkstra\<close> leaves a
  finite distance at exactly the nodes that the edges reach from the start.
\<close>

lemma dijkstra_buildAdjacency_reach:
  assumes "[] \<notin> node_id ` set ns" "start \<in> node_id ` set ns"
  shows "(fst (dijkstra (buildAdjacency ns es) start) v \<noteq> PosInf)
         = ((start, v) \<in> (adjRel (buildAdjacency ns es))\<^sup>*)"
proof -
  have c: "adjClosed (node_id ` set ns) (buildAdjacency ns es)" by (rule adjClosed_buildAdjacency)
  have ok: "adjOk (buildAdjacency ns es)" using adjClosed_adjOk[OF c assms(1)] .
  have key: "start \<in> adjKeys (buildAdjacency ns es)"
    using c assms(2) by (simp add: adjClosed_def adjKeys_def)
  show ?thesis using dijkstra_reach[OF ok key] .
qed

text \<open>
  C8 on the row \<open>first - b - c\<close> with the start at \<open>(1, 0)\<close> and the destination \<open>c\<close>. The
  start snaps to the edge \<open>first - b\<close> and is joined to both of its ends, so \<open>c\<close> is a node
  of the map and the path \<open>start - b - c\<close> connects the start to it: the adjacency that the
  code builds has \<open>b\<close> under the start and \<open>c\<close> under \<open>b\<close>. When the first node is
  named \<open>a\<close> that path is returned. When its id is the empty string the search picks it
  second, \<open>if (!u) break\<close> takes the empty id for "nothing picked" and stops before \<open>b\<close> is
  expanded, \<open>c\<close> keeps an infinite distance and the result is \<open>null\<close>.
\<close>

theorem shortestPath_empty_id_unreached:
  "shortestPathFromPoint emptyIdMap \<lparr>ptx = 1, pty = 0\<rparr> ''c'' = Some None
   \<and> (\<exists>n \<in> set (nodes emptyIdMap). node_id n = ''c'')
   \<and> (''b'', 9) \<in> set (adjOf (buildAdjacency
          [mkNode [] 0 0, mkNode ''b'' 10 0, mkNode ''c'' 20 0,
           \<lparr>node_id = ''__start__'', node_label = ''Start'', node_x = 1, node_y = 0,
             node_floor = 0, node_type = Walkway, sectionId = None\<rparr>]
          [mkEdge [] ''b'', mkEdge ''b'' ''c'',
           \<lparr>edge_from = ''__start__'', edge_to = [], edge_distance = Some 1,
             bidirectional = Some True\<rparr>,
           \<lparr>edge_from = ''__start__'', edge_to = ''b'', edge_distance = Some 9,
             bidirectional = Some True\<rparr>]) ''__start__'')
   \<and> (''c'', 10) \<in> set (adjOf (buildAdjacency
          [mkNode [] 0 0, mkNode ''b'' 10 0, mkNode ''c'' 20 0,
           \<lparr>node_id = ''__start__'', node_label = ''Start'', node_x = 1, node_y = 0,
             node_floor = 0, node_type = Walkway, sectionId = None\<rparr>]
          [mkEdge [] ''b'', mkEdge ''b'' ''c'',
           \<lparr>edge_from = ''__start__'', edge_to = [], edge_distance = Some 1,
             bidirectional = Some True\<rparr>,
           \<lparr>edge_from = ''__start__'', edge_to = ''b'', edge_distance = Some 9,
             bidirectional = Some True\<rparr>]) ''b'')
   \<and> shortestPathFromPoint namedIdMap \<lparr>ptx = 1, pty = 0\<rparr> ''c''
     = Some (Some \<lparr>nodeIds = [''__start__'', ''b'', ''c''],
          points = [\<lparr>ptx = 1, pty = 0\<rparr>, \<lparr>ptx = 10, pty = 0\<rparr>, \<lparr>ptx = 20, pty = 0\<rparr>],
          lengthMeters = 19\<rparr>)"
proof -
  have n: "\<exists>n \<in> set (nodes emptyIdMap). node_id n = ''c''"
    by (simp add: emptyIdMap_def rowMap_def mkNode_def)
  show ?thesis
    using shortest_empty shortest_named n by (simp add: adj_empty adjOf_def)
qed

end
